theory Spec2Isabelle
  imports Main
begin

section \<open>JavaScript strings and numbers, as far as content.js uses them\<close>

text \<open>
  A string is the list of its code units, and \<open>length\<close> is its \<open>.length\<close>. The
  code units of this model are \<open>U+0000\<close> to \<open>U+00FF\<close> (ASCII and Latin-1), and on
  them the functions below are JavaScript's own:
  \<^item> \<open>toLowerCase\<close> maps \<open>A\<close>-\<open>Z\<close> and the Latin-1 capitals \<open>U+00C0\<close>-\<open>U+00DE\<close>
    (without the multiplication sign \<open>U+00D7\<close>) to the letter \<open>0x20\<close> above;
  \<^item> \<open>toUpperCase\<close> maps \<open>a\<close>-\<open>z\<close> and \<open>U+00E0\<close>-\<open>U+00FE\<close> (without the
    division sign \<open>U+00F7\<close>) to the letter \<open>0x20\<close> below, and the sharp s
    \<open>U+00DF\<close> to the two letters \<open>SS\<close>;
  \<^item> \<open>trim\<close> removes, at both ends, the white space and line terminators
    \<open>U+0009\<close>-\<open>U+000D\<close>, \<open>U+0020\<close> and the no-break space \<open>U+00A0\<close>.
  Two code units leave this range when upper-cased: the micro sign \<open>U+00B5\<close> becomes
  \<open>U+039C\<close> and \<open>U+00FF\<close> becomes \<open>U+0178\<close>. A string of the model cannot hold
  those results; \<open>upperCaseFits\<close> says that a string has neither of the two, and the
  theorems that concern an upper-cased character are stated for such strings.
\<close>

definition upperLetters :: string where
  "upperLetters =
     ''ABCDEFGHIJKLMNOPQRSTUVWXYZ'' @
     [CHR 0xC0, CHR 0xC1, CHR 0xC2, CHR 0xC3, CHR 0xC4, CHR 0xC5, CHR 0xC6, CHR 0xC7,
      CHR 0xC8, CHR 0xC9, CHR 0xCA, CHR 0xCB, CHR 0xCC, CHR 0xCD, CHR 0xCE, CHR 0xCF,
      CHR 0xD0, CHR 0xD1, CHR 0xD2, CHR 0xD3, CHR 0xD4, CHR 0xD5, CHR 0xD6,
      CHR 0xD8, CHR 0xD9, CHR 0xDA, CHR 0xDB, CHR 0xDC, CHR 0xDD, CHR 0xDE]"

definition lowerLetters :: string where
  "lowerLetters =
     ''abcdefghijklmnopqrstuvwxyz'' @
     [CHR 0xE0, CHR 0xE1, CHR 0xE2, CHR 0xE3, CHR 0xE4, CHR 0xE5, CHR 0xE6, CHR 0xE7,
      CHR 0xE8, CHR 0xE9, CHR 0xEA, CHR 0xEB, CHR 0xEC, CHR 0xED, CHR 0xEE, CHR 0xEF,
      CHR 0xF0, CHR 0xF1, CHR 0xF2, CHR 0xF3, CHR 0xF4, CHR 0xF5, CHR 0xF6,
      CHR 0xF8, CHR 0xF9, CHR 0xFA, CHR 0xFB, CHR 0xFC, CHR 0xFD, CHR 0xFE]"

definition toLowerChar :: "char \<Rightarrow> char" where
  "toLowerChar c = (case map_of (zip upperLetters lowerLetters) c of Some d \<Rightarrow> d | None \<Rightarrow> c)"

text \<open>The code units that the upper-cased character consists of.\<close>

definition toUpperChar :: "char \<Rightarrow> string" where
  "toUpperChar c =
     (if c = CHR 0xDF then ''SS''
      else case map_of (zip lowerLetters upperLetters) c of Some d \<Rightarrow> [d] | None \<Rightarrow> [c])"

definition upperCaseFits :: "string \<Rightarrow> bool" where
  "upperCaseFits s = (CHR 0xB5 \<notin> set s \<and> CHR 0xFF \<notin> set s)"

definition toLowerCase :: "string \<Rightarrow> string" where
  "toLowerCase s = map toLowerChar s"

definition toUpperCase :: "string \<Rightarrow> string" where
  "toUpperCase s = concat (map toUpperChar s)"

definition isWhiteSpace :: "char \<Rightarrow> bool" where
  "isWhiteSpace c =
     (c \<in> set [CHR 0x09, CHR 0x0A, CHR 0x0B, CHR 0x0C, CHR 0x0D, CHR 0x20, CHR 0xA0])"

definition trim :: "string \<Rightarrow> string" where
  "trim s = rev (dropWhile isWhiteSpace (rev (dropWhile isWhiteSpace s)))"

definition startsWith :: "string \<Rightarrow> string \<Rightarrow> bool" where
  "startsWith s q = (take (length q) s = q)"

definition endsWith :: "string \<Rightarrow> string \<Rightarrow> bool" where
  "endsWith s q = (length q \<le> length s \<and> drop (length s - length q) s = q)"

text \<open>\<open>s.includes(q)\<close>: \<open>q\<close> occurs in \<open>s\<close> as a contiguous substring.\<close>

fun includes_str :: "string \<Rightarrow> string \<Rightarrow> bool" where
  "includes_str [] q = (q = [])"
| "includes_str (c # s) q = (startsWith (c # s) q \<or> includes_str s q)"

text \<open>\<open>s.charAt(i)\<close> is the empty string when \<open>i\<close> is out of range.\<close>

definition charAt :: "string \<Rightarrow> nat \<Rightarrow> string" where
  "charAt s i = (if i < length s then [s ! i] else [])"

definition slice :: "string \<Rightarrow> nat \<Rightarrow> string" where
  "slice s start = drop start s"

text \<open>
  \<open>s.substring(start, stop)\<close>: both indices are clamped to \<open>[0, s.length]\<close> (so a
  negative index counts as 0) and swapped when \<open>start > stop\<close>.
\<close>

definition substring :: "string \<Rightarrow> int \<Rightarrow> int \<Rightarrow> string" where
  "substring s start stop =
     (let n = int (length s);
          a = max 0 (min start n);
          b = max 0 (min stop n);
          lo = min a b;
          hi = max a b
      in take (nat (hi - lo)) (drop (nat lo) s))"

text \<open>
  \<open>Number.prototype.toString\<close> on an integer: the decimal digits, most significant
  first, after a minus sign for a negative number. (JavaScript prints integers this way
  below \<open>10^21\<close>; every number the script converts is far below that.)
\<close>

definition digitChar :: "nat \<Rightarrow> char" where
  "digitChar d = ''0123456789'' ! d"

function natToString :: "nat \<Rightarrow> string" where
  "natToString n =
     (if n < 10 then [digitChar n] else natToString (n div 10) @ [digitChar (n mod 10)])"
  by pat_completeness auto
termination natToString
  by (relation "measure id") auto

definition numberToString :: "int \<Rightarrow> string" where
  "numberToString i =
     (if i < 0 then CHR ''-'' # natToString (nat (- i)) else natToString (nat i))"

text \<open>\<open>x || d\<close> on an optional number: absent and \<open>0\<close> are falsy.\<close>

definition orDefault :: "int option \<Rightarrow> int \<Rightarrow> int" where
  "orDefault x d = (case x of None \<Rightarrow> d | Some v \<Rightarrow> if v = 0 then d else v)"

section \<open>Field-type mapping (mapFieldTypeForExport)\<close>

definition mapFieldTypeForExport :: "string \<Rightarrow> int option \<Rightarrow> string" where
  "mapFieldTypeForExport fieldType fieldLength =
     (let t = toLowerCase fieldType in
      if t = ''reference'' then ''Lookup(User)''
      else if t = ''double'' then ''Number(4,0)''
      else if t = ''string'' then ''Text('' @ numberToString (orDefault fieldLength 500) @ '')''
      else toUpperCase (charAt fieldType 0) @ slice fieldType 1)"

text \<open>
  The raw types and lengths at which \<open>mapFieldTypeForExport\<close> above gives the result of
  the script: the first character has its upper-case form among the strings above, and
  the length is an integer that JavaScript prints in full.
\<close>

definition mappingFits :: "string \<Rightarrow> int option \<Rightarrow> bool" where
  "mappingFits t l =
     (upperCaseFits (take 1 t) \<and>
      (case l of None \<Rightarrow> True | Some n \<Rightarrow> \<bar>n\<bar> < 2 ^ 53))"

section \<open>Rendered rows and the Quick Find filter (onQuickFindInput)\<close>

text \<open>
  A table row \<open>tr\<close>: the \<open>innerText\<close> of its \<open>td\<close> cells in order, the two
  \<open>dataset\<close> entries the script keeps on it (absent until written), the \<open>title\<close>
  attribute of its first cell and its \<open>style.display\<close>.
\<close>

record row =
  cells :: "string list"
  picklistText :: "string option"
  picklistFetched :: "string option"
  title :: "string option"
  display :: string

text \<open>
  \<open>row.dataset.picklistText ? row.dataset.picklistText : ""\<close>: the annotation as the
  filter and the export read it.
\<close>

definition annotation :: "row \<Rightarrow> string" where
  "annotation r = (case picklistText r of None \<Rightarrow> [] | Some t \<Rightarrow> t)"

text \<open>The condition of the conditional expression that sets \<open>row.style.display\<close>.\<close>

definition rowMatches :: "string \<Rightarrow> row \<Rightarrow> bool" where
  "rowMatches query r =
     (let fieldLabel = toLowerCase (cells r ! 0);
          apiName = toLowerCase (cells r ! 1);
          fieldType = toLowerCase (cells r ! 2);
          pickText = (case picklistText r of
                        None \<Rightarrow> []
                      | Some t \<Rightarrow> if t = [] then [] else toLowerCase t);
          combined = fieldLabel @ '' '' @ pickText
      in query = [] \<or> includes_str combined query \<or> includes_str apiName query
           \<or> includes_str fieldType query)"

text \<open>The body of \<open>rows.forEach\<close>: a row with fewer than three cells is left alone.\<close>

definition filterRow :: "string \<Rightarrow> row \<Rightarrow> row" where
  "filterRow query r =
     (if length (cells r) < 3 then r
      else r\<lparr>display := (if rowMatches query r then [] else ''none'')\<rparr>)"

text \<open>
  \<open>onQuickFindInput\<close> on the input's value and the rows of \<open>table tbody\<close>
  (\<open>None\<close>: the page has no such table, and the handler returns at once).
\<close>

definition onQuickFindInput :: "string \<Rightarrow> row list option \<Rightarrow> row list option" where
  "onQuickFindInput val tbody =
     (let query = toLowerCase (trim val) in
      case tbody of
        None \<Rightarrow> None
      | Some rows \<Rightarrow> Some (map (filterRow query) rows))"

section \<open>Picklist enrichment (processPicklistRows, fetchPicklistValuesViaBackground)\<close>

datatype js_error = TypeError | TimeoutError | WriterError

datatype console_entry = ConsoleLog string | ConsoleError string "string option"

text \<open>
  The message \<open>fetchPicklistValues\<close> handed to \<open>chrome.runtime.sendMessage\<close>,
  together with the row its callback closes over: a row is named by its position in
  \<open>table tbody\<close>, which stays the same between a request and its response.
\<close>

record picklist_request =
  req_row :: nat
  req_objectName :: string
  req_fieldApiName :: string
  req_origin :: string
  req_isStandard :: bool

text \<open>The response object; the callback may also be called with no response at all.\<close>

record picklist_data =
  data_picklistText :: "string option"

record picklist_response =
  pr_success :: bool
  pr_data :: "picklist_data option"
  pr_error :: "string option"

text \<open>
  What the script sees and changes: the page's origin, the rows of \<open>table tbody\<close>
  (\<open>None\<close>: no such table), the value of the input \<open>#customQuickFind\<close>
  (\<open>None\<close>: no such input), the console, and the messages sent so far.
\<close>

record page =
  origin :: string
  tableBody :: "row list option"
  customQuickFind :: "string option"
  console :: "console_entry list"
  outbox :: "picklist_request list"

text \<open>The sending half of \<open>fetchPicklistValuesViaBackground\<close>: the message it posts.\<close>

definition fetchPicklistValuesViaBackground ::
  "string \<Rightarrow> nat \<Rightarrow> string \<Rightarrow> string \<Rightarrow> bool \<Rightarrow> picklist_request" where
  "fetchPicklistValuesViaBackground org i objectName fieldApiName isStandard =
     \<lparr>req_row = i, req_objectName = objectName, req_fieldApiName = fieldApiName,
      req_origin = org, req_isStandard = isStandard\<rparr>"

text \<open>\<open>response && response.success\<close> and \<open>response && response.error\<close>.\<close>

definition responseOk :: "picklist_response option \<Rightarrow> bool" where
  "responseOk response = (case response of None \<Rightarrow> False | Some r \<Rightarrow> pr_success r)"

definition responseError :: "picklist_response option \<Rightarrow> string option" where
  "responseError response = (case response of None \<Rightarrow> None | Some r \<Rightarrow> pr_error r)"

text \<open>
  The callback of \<open>fetchPicklistValuesViaBackground\<close>, for the request of row \<open>i\<close>.
  Reading \<open>response.data.picklistText\<close> throws a TypeError when a successful response
  carries no \<open>data\<close>.
\<close>

definition picklistResponse ::
  "nat \<Rightarrow> string \<Rightarrow> picklist_response option \<Rightarrow> page \<Rightarrow> js_error + page" where
  "picklistResponse i fieldApiName response pg =
     (if responseOk response then
        (case response of
           None \<Rightarrow> Inl TypeError
         | Some r \<Rightarrow>
            (case pr_data r of
               None \<Rightarrow> Inl TypeError
             | Some d \<Rightarrow>
                 let pickText = (case data_picklistText d of None \<Rightarrow> [] | Some t \<Rightarrow> t);
                     annotate = (\<lambda>r. r\<lparr>picklistText := Some pickText,
                                      title := (if cells r = [] then title r else Some pickText)\<rparr>);
                     pg1 = pg\<lparr>tableBody :=
                                 map_option (\<lambda>rows. rows[i := annotate (rows ! i)]) (tableBody pg),
                              console := console pg @
                                 [ConsoleLog (''Fetched picklist for '' @ fieldApiName @ '': '' @ pickText)]\<rparr>
                 in Inr (case customQuickFind pg1 of
                           None \<Rightarrow> pg1
                         | Some v \<Rightarrow> pg1\<lparr>tableBody := onQuickFindInput v (tableBody pg1)\<rparr>)))
      else Inr (pg\<lparr>console := console pg @
                  [ConsoleError ''Error fetching picklist values:'' (responseError response)]\<rparr>))"

text \<open>
  The body of \<open>rows.forEach\<close> in \<open>processPicklistRows\<close>, on the row at position
  \<open>i\<close>: the row as it leaves the body, and the messages sent for it.
\<close>

definition enrichRow :: "string \<Rightarrow> string \<Rightarrow> nat \<Rightarrow> row \<Rightarrow> row \<times> picklist_request list" where
  "enrichRow org objectName i r =
     (if picklistFetched r = Some ''true'' then (r, [])
      else if length (cells r) < 3 then (r, [])
      else
        let fieldType = toLowerCase (cells r ! 2);
            fieldApiName = trim (cells r ! 1);
            isStandard = (\<not> endsWith fieldApiName ''__c'')
        in if includes_str fieldType ''picklist''
           then (r\<lparr>picklistFetched := Some ''true''\<rparr>,
                 [fetchPicklistValuesViaBackground org i objectName fieldApiName isStandard])
           else (r\<lparr>picklistText := Some [], title := None, picklistFetched := Some ''true''\<rparr>,
                 []))"

fun enrichRows ::
  "string \<Rightarrow> string \<Rightarrow> nat \<Rightarrow> row list \<Rightarrow> row list \<times> picklist_request list" where
  "enrichRows org objectName i [] = ([], [])"
| "enrichRows org objectName i (r # rs) =
     (let (r', sent) = enrichRow org objectName i r;
          (rs', sent') = enrichRows org objectName (Suc i) rs
      in (r' # rs', sent @ sent'))"

text \<open>
  \<open>processPicklistRows\<close>, given what \<open>await getObjectApiNameFromURL()\<close> yields
  (\<open>None\<close> for \<open>null\<close>; the empty string is falsy as well).
\<close>

definition processPicklistRows :: "string option \<Rightarrow> page \<Rightarrow> page" where
  "processPicklistRows objectName pg =
     (case tableBody pg of
        None \<Rightarrow> pg
      | Some rows \<Rightarrow>
          (case objectName of
             None \<Rightarrow> pg\<lparr>console := console pg @ [ConsoleError ''Could not determine object name.'' None]\<rparr>
           | Some name \<Rightarrow>
               if name = []
               then pg\<lparr>console := console pg @ [ConsoleError ''Could not determine object name.'' None]\<rparr>
               else let (rows', sent) = enrichRows (origin pg) name 0 rows
                    in pg\<lparr>tableBody := Some rows', outbox := outbox pg @ sent\<rparr>))"

text \<open>The messages sent so far for the row at position \<open>k\<close>.\<close>

definition requestsFor :: "nat \<Rightarrow> page \<Rightarrow> picklist_request list" where
  "requestsFor k pg = filter (\<lambda>m. req_row m = k) (outbox pg)"

section \<open>Sheet names (getUniqueSheetName)\<close>

text \<open>\<open>existingNames.includes(name)\<close>: a read of the array, which it hands back as it was.\<close>

definition array_includes :: "string list \<Rightarrow> string \<Rightarrow> bool \<times> string list" where
  "array_includes xs x = (x \<in> set xs, xs)"

text \<open>The name the loop body forms from \<open>sheetName\<close> at a given \<open>suffix\<close>.\<close>

definition candidate :: "string \<Rightarrow> nat \<Rightarrow> string" where
  "candidate sheetName suffix =
     (let base = substring sheetName 0 (31 - int (length (numberToString (int suffix))))
      in base @ numberToString (int suffix))"

subsection \<open>Decimal numerals\<close>

lemma natToString_small: "n < 10 \<Longrightarrow> natToString n = [digitChar n]"
  by simp

lemma natToString_large:
  "\<not> n < 10 \<Longrightarrow> natToString n = natToString (n div 10) @ [digitChar (n mod 10)]"
  by simp

declare natToString.simps [simp del]

lemma length_natToString_pos: "0 < length (natToString n)"
  by (cases "n < 10") (simp_all add: natToString_small natToString_large)

lemma length_natToString_lower: "10 ^ m \<le> n \<Longrightarrow> m < length (natToString n)"
proof (induction m arbitrary: n)
  case 0
  show ?case by (rule length_natToString_pos)
next
  case (Suc m)
  from Suc.prems have "10 * 10 ^ m \<le> n" by simp
  moreover have "(1::nat) \<le> 10 ^ m" by simp
  ultimately have ge: "\<not> n < 10" by linarith
  from Suc.prems have "10 ^ m \<le> n div 10"
    by (simp add: less_eq_div_iff_mult_less_eq mult.commute)
  then have "m < length (natToString (n div 10))" by (rule Suc.IH)
  with ge show ?case by (simp add: natToString_large)
qed

lemma length_natToString_upper: "n < 10 ^ Suc m \<Longrightarrow> length (natToString n) \<le> Suc m"
proof (induction m arbitrary: n)
  case 0
  then show ?case by (simp add: natToString_small)
next
  case (Suc m)
  show ?case
  proof (cases "n < 10")
    case True
    then show ?thesis by (simp add: natToString_small)
  next
    case False
    from Suc.prems have "n div 10 < 10 ^ Suc m"
      by (simp add: less_mult_imp_div_less mult.commute)
    then have "length (natToString (n div 10)) \<le> Suc m" by (rule Suc.IH)
    with False show ?thesis by (simp add: natToString_large)
  qed
qed

lemma digitChar_inj: "a < 10 \<Longrightarrow> b < 10 \<Longrightarrow> digitChar a = digitChar b \<Longrightarrow> a = b"
proof -
  assume "a < 10" and "b < 10"
  then have "a \<in> {0,1,2,3,4,5,6,7,8,9}" and "b \<in> {0,1,2,3,4,5,6,7,8,9}" by auto
  moreover assume "digitChar a = digitChar b"
  ultimately show ?thesis by (auto simp: digitChar_def)
qed

lemma natToString_inj: "natToString a = natToString b \<Longrightarrow> a = b"
proof (induction a arbitrary: b rule: natToString.induct)
  case (1 n)
  show ?case
  proof (cases "n < 10")
    case True
    with "1.prems" have eq: "[digitChar n] = natToString b" by (simp add: natToString_small)
    have "b < 10"
    proof (rule ccontr)
      assume "\<not> b < 10"
      then have "10 ^ 1 \<le> b" by simp
      then have "1 < length (natToString b)" by (rule length_natToString_lower)
      with eq show False by (cases "natToString b") (auto simp: eq[symmetric])
    qed
    with eq True show ?thesis by (simp add: natToString_small digitChar_inj)
  next
    case False
    have bge: "\<not> b < 10"
    proof
      assume "b < 10"
      then have "length (natToString b) = 1" by (simp add: natToString_small)
      moreover from False have "10 ^ 1 \<le> n" by simp
      then have "1 < length (natToString n)" by (rule length_natToString_lower)
      ultimately show False using "1.prems" by simp
    qed
    from False bge "1.prems" have h1: "natToString (n div 10) = natToString (b div 10)"
      and h2: "digitChar (n mod 10) = digitChar (b mod 10)"
      by (simp_all add: natToString_large)
    from "1.IH"[OF False h1] have "n div 10 = b div 10" .
    moreover from h2 have "n mod 10 = b mod 10" by (simp add: digitChar_inj)
    ultimately show ?thesis by (metis div_mult_mod_eq)
  qed
qed

lemma numberToString_int: "numberToString (int k) = natToString k"
  by (simp add: numberToString_def)

lemma substring_from_0: "substring s 0 e = take (nat e) s"
  by (auto simp: substring_def Let_def max_def min_def)

subsection \<open>The loop ends: some suffix always gives a name that is not taken\<close>

lemma candidate_long: "10 ^ 30 \<le> k \<Longrightarrow> candidate n k = natToString k"
proof -
  assume "10 ^ 30 \<le> k"
  then have "30 < length (natToString k)" by (rule length_natToString_lower)
  then show ?thesis by (simp add: candidate_def numberToString_int substring_from_0)
qed

lemma candidate_fresh_exists: "\<exists>j\<ge>k. candidate n j \<notin> set E"
proof (rule ccontr)
  assume "\<not> (\<exists>j\<ge>k. candidate n j \<notin> set E)"
  then have taken: "\<And>j. k \<le> j \<Longrightarrow> candidate n j \<in> set E" by blast
  define N :: nat where "N = max k (10 ^ 30)"
  have Nk: "k \<le> N" and N30: "10 ^ 30 \<le> N" by (simp_all add: N_def)
  let ?A = "{j. N \<le> j}"
  have "natToString ` ?A \<subseteq> set E"
  proof
    fix x assume "x \<in> natToString ` ?A"
    then obtain j where j: "N \<le> j" and x: "x = natToString j" by auto
    from j N30 have "10 ^ 30 \<le> j" by (rule le_trans[rotated])
    then have "candidate n j = natToString j" by (rule candidate_long)
    moreover from Nk j have "k \<le> j" by (rule le_trans)
    then have "candidate n j \<in> set E" by (rule taken)
    ultimately show "x \<in> set E" using x by simp
  qed
  then have "finite (natToString ` ?A)" by (rule finite_subset) simp
  moreover have "inj_on natToString ?A" by (rule inj_onI) (rule natToString_inj)
  ultimately have "finite ?A" by (rule finite_imageD)
  then obtain m where m: "\<forall>j\<in>?A. j \<le> m" by (auto simp: finite_nat_set_iff_bounded_le)
  have "Suc (max m N) \<in> ?A" by simp
  with m have "Suc (max m N) \<le> m" by blast
  then show False by simp
qed

function getUniqueSheetName_loop ::
  "string \<Rightarrow> string list \<Rightarrow> nat \<Rightarrow> string \<Rightarrow> string \<times> string list" where
  "getUniqueSheetName_loop sheetName existingNames suffix uniqueName =
     (let (found, existingNames') = array_includes existingNames uniqueName in
      if found
      then let base = substring sheetName 0 (31 - int (length (numberToString (int suffix))))
           in getUniqueSheetName_loop sheetName existingNames' (suffix + 1)
                (base @ numberToString (int suffix))
      else (uniqueName, existingNames'))"
  by pat_completeness auto
termination getUniqueSheetName_loop
proof (relation "measure (\<lambda>(n, E, k, u).
         if u \<in> set E then Suc ((LEAST j. k \<le> j \<and> candidate n j \<notin> set E) - k) else 0)",
       goal_cases)
  case 1
  show ?case by simp
next
  case (2 sheetName existingNames suffix uniqueName x found E' base)
  then have E': "E' = existingNames" and u: "uniqueName \<in> set existingNames"
    by (auto simp: array_includes_def)
  let ?P = "\<lambda>k j. k \<le> j \<and> candidate sheetName j \<notin> set existingNames"
  have c: "base @ numberToString (int suffix) = candidate sheetName suffix"
    using 2 by (simp add: candidate_def)
  show ?case
  proof (cases "candidate sheetName suffix \<in> set existingNames")
    case False
    with u E' c show ?thesis by simp
  next
    case True
    have ex: "\<exists>j. ?P (Suc suffix) j"
      using candidate_fresh_exists[of "Suc suffix" sheetName existingNames] by blast
    have eq: "?P suffix = ?P (Suc suffix)"
    proof (rule ext)
      fix j show "?P suffix j = ?P (Suc suffix) j"
        using True by (cases "j = suffix") auto
    qed
    from ex have "?P (Suc suffix) (LEAST j. ?P (Suc suffix) j)" by (rule LeastI_ex)
    then have "Suc suffix \<le> (LEAST j. ?P (Suc suffix) j)" by simp
    with True u E' c eq show ?thesis by simp
  qed
qed

definition getUniqueSheetName :: "string \<Rightarrow> string list \<Rightarrow> string \<times> string list" where
  "getUniqueSheetName sheetName existingNames =
     getUniqueSheetName_loop sheetName existingNames 1 sheetName"

section \<open>Workbook assembly (the three export routines)\<close>

text \<open>
  A cell of the array handed to \<open>XLSX.utils.aoa_to_sheet\<close> is a string or a number; a
  sheet is its name and its rows; a workbook is its sheets in the order
  \<open>book_append_sheet\<close> added them.
\<close>

datatype cell = Str string | Num int

type_synonym sheet_data = "cell list list"

type_synonym workbook = "(string \<times> sheet_data) list"

record field_description =
  fieldLabel :: string
  fieldApiName :: string
  fieldType :: string
  fieldLength :: "int option"
  picklistValues :: string

text \<open>
  The response to \<open>fetchObjectDescribe\<close>: \<open>fields\<close> may be missing; an array, even
  an empty one, is truthy.
\<close>

record describe_response =
  dr_success :: bool
  dr_fields :: "field_description list option"
  dr_error :: "string option"

record object_ref =
  objectLabel :: string
  objectApiName :: string

definition currentHeader :: "cell list" where
  "currentHeader = [Str ''Field Label'', Str ''API Name'', Str ''Field Type'', Str ''Picklist Values'']"

definition bulkHeader :: "cell list" where
  "bulkHeader = [Str ''Field Label'', Str ''API Name'', Str ''Field Type'', Str ''Field Length'',
                 Str ''Picklist Values'']"

text \<open>\<open>name.length > 31 ? name.substring(0, 31) : name\<close>\<close>

definition truncate31 :: "string \<Rightarrow> string" where
  "truncate31 name = (if length name > 31 then substring name 0 31 else name)"

subsection \<open>The current object's fields (exportCurrentObjectFieldsToXLSX)\<close>

text \<open>The body of \<open>rows.forEach\<close>: the rows it pushes for one table row (none or one).\<close>

definition currentRowData :: "row \<Rightarrow> sheet_data" where
  "currentRowData r =
     (if length (cells r) < 3 then []
      else
        let label = trim (cells r ! 0);
            apiName = trim (cells r ! 1);
            originalFieldType = trim (cells r ! 2);
            mappedFieldType = mapFieldTypeForExport originalFieldType (Some 500);
            pickText = (case picklistText r of
                          None \<Rightarrow> []
                        | Some t \<Rightarrow> if t = [] then [] else trim t)
        in [[Str label, Str apiName, Str mappedFieldType, Str pickText]])"

text \<open>
  The routine, given what \<open>waitForElement("table tbody")\<close> yields (\<open>None\<close>: it timed
  out, the error is caught and nothing is written) and what
  \<open>getObjectApiNameFromURL()\<close> yields: the workbook and the file name of the download.
\<close>

definition exportCurrentObjectFieldsToXLSX ::
  "row list option \<Rightarrow> string option \<Rightarrow> js_error + (workbook \<times> string)" where
  "exportCurrentObjectFieldsToXLSX tbody apiName =
     (case tbody of
        None \<Rightarrow> Inl TimeoutError
      | Some rows \<Rightarrow>
          let data = currentHeader # concat (map currentRowData rows);
              objectName = (case apiName of None \<Rightarrow> ''Object''
                            | Some n \<Rightarrow> if n = [] then ''Object'' else n);
              sheetName = truncate31 objectName
          in Inr ([(sheetName, data)], objectName @ ''_fields_export.xlsx''))"

subsection \<open>Several objects (exportFullDatabaseToXLSX, exportSelectedObjectsToXLSX)\<close>

text \<open>The row pushed for one described field.\<close>

definition fieldData :: "field_description \<Rightarrow> cell list" where
  "fieldData field =
     (let mappedFieldType = mapFieldTypeForExport (fieldType field) (fieldLength field)
      in [Str (fieldLabel field),
          Str (fieldApiName field),
          Str mappedFieldType,
          (case fieldLength field of
             None \<Rightarrow> Str []
           | Some l \<Rightarrow> if l = 0 then Str [] else Num l),
          Str (picklistValues field)])"

text \<open>\<open>response && response.success && response.fields\<close>\<close>

definition describedFields :: "describe_response option \<Rightarrow> field_description list option" where
  "describedFields response =
     (case response of
        None \<Rightarrow> None
      | Some r \<Rightarrow> if dr_success r then dr_fields r else None)"

definition errorData :: "object_ref \<Rightarrow> cell list" where
  "errorData obj =
     [Str (objectLabel obj), Str (objectApiName obj), Str ''Error fetching fields'', Str [], Str []]"

text \<open>The array \<open>data\<close> built for one object from the response to its request.\<close>

definition objectData :: "object_ref \<Rightarrow> describe_response option \<Rightarrow> sheet_data" where
  "objectData obj response =
     bulkHeader #
       (case describedFields response of
          Some fs \<Rightarrow> map fieldData fs
        | None \<Rightarrow> [errorData obj])"

text \<open>
  \<open>XLSX.utils.book_append_sheet(wb, ws, name)\<close> is code of the XLSX library, not of the
  script, so the export routines take it as a parameter: given the workbook, the sheet
  and the sheet name it returns the workbook with the sheet added, or throws (the
  library refuses, among others, a name that contains a slash and a name the workbook
  already has).
\<close>

type_synonym sheet_writer = "workbook \<Rightarrow> sheet_data \<Rightarrow> string \<Rightarrow> js_error + workbook"

text \<open>
  The lines that name the sheet of an object: the label, cut to 31 characters, made
  unique, and pushed onto \<open>usedSheetNames\<close>.
\<close>

definition allocateSheetName :: "string list \<Rightarrow> object_ref \<Rightarrow> string \<times> string list" where
  "allocateSheetName usedSheetNames obj =
     (let sheetName = truncate31 (objectLabel obj);
          (sheetName', usedSheetNames') = getUniqueSheetName sheetName usedSheetNames
      in (sheetName', usedSheetNames' @ [sheetName']))"

text \<open>
  One turn of the loop \<open>for (const obj of objects)\<close>, which both routines share: the
  state is the workbook and \<open>usedSheetNames\<close>; the object comes with the response its
  \<open>fetchObjectDescribe\<close> request received. An error thrown by the writer leaves the
  loop.
\<close>

definition exportObject ::
  "sheet_writer \<Rightarrow> workbook \<times> string list \<Rightarrow> object_ref \<times> describe_response option \<Rightarrow>
     js_error + (workbook \<times> string list)" where
  "exportObject book_append_sheet st x =
     (let (wb, usedSheetNames) = st;
          (obj, response) = x;
          data = objectData obj response;
          (sheetName, usedSheetNames') = allocateSheetName usedSheetNames obj
      in case book_append_sheet wb data sheetName of
           Inl e \<Rightarrow> Inl e
         | Inr wb' \<Rightarrow> Inr (wb', usedSheetNames'))"

fun exportObjects ::
  "sheet_writer \<Rightarrow> workbook \<times> string list \<Rightarrow> (object_ref \<times> describe_response option) list \<Rightarrow>
     js_error + (workbook \<times> string list)" where
  "exportObjects book_append_sheet st [] = Inr st"
| "exportObjects book_append_sheet st (x # xs) =
     (case exportObject book_append_sheet st x of
        Inl e \<Rightarrow> Inl e
      | Inr st' \<Rightarrow> exportObjects book_append_sheet st' xs)"

text \<open>
  \<open>exportSelectedObjectsToXLSX\<close>: the workbook and the file name of the download, or
  the error that the routine's \<open>catch\<close> logs, after which nothing is downloaded.
\<close>

definition exportSelectedObjectsToXLSX ::
  "sheet_writer \<Rightarrow> (object_ref \<times> describe_response option) list \<Rightarrow>
     js_error + (workbook \<times> string)" where
  "exportSelectedObjectsToXLSX book_append_sheet selectedObjects =
     (case exportObjects book_append_sheet ([], []) selectedObjects of
        Inl e \<Rightarrow> Inl e
      | Inr (wb, usedSheetNames) \<Rightarrow>
          Inr (wb, ''selected_salesforce_objects_fields_export.xlsx''))"

text \<open>
  \<open>exportFullDatabaseToXLSX\<close> from the point where the home page's rows have been
  read: \<open>homeRows\<close> is their number (with none the routine logs an error and
  returns: \<open>None\<close>), \<open>objects\<close> the list its first loop gathers from them.
\<close>

definition exportFullDatabaseToXLSX ::
  "sheet_writer \<Rightarrow> nat \<Rightarrow> (object_ref \<times> describe_response option) list \<Rightarrow>
     (js_error + (workbook \<times> string)) option" where
  "exportFullDatabaseToXLSX book_append_sheet homeRows objects =
     (if homeRows = 0 then None
      else Some (case exportObjects book_append_sheet ([], []) objects of
                   Inl e \<Rightarrow> Inl e
                 | Inr (wb, usedSheetNames) \<Rightarrow>
                     Inr (wb, ''salesforce_objects_fields_export.xlsx'')))"

text \<open>
  A writer accepts a sheet name when it adds a sheet of that name to every workbook
  that has no sheet of that name.
\<close>

definition accepts :: "sheet_writer \<Rightarrow> string \<Rightarrow> bool" where
  "accepts book_append_sheet name =
     (\<forall>wb ws. name \<notin> fst ` set wb \<longrightarrow> book_append_sheet wb ws name = Inr (wb @ [(name, ws)]))"

text \<open>The sheet names that the loop allocates, one for each object, in order.\<close>

fun sheetNamesFrom :: "string list \<Rightarrow> object_ref list \<Rightarrow> string list" where
  "sheetNamesFrom usedSheetNames [] = []"
| "sheetNamesFrom usedSheetNames (obj # objs) =
     fst (allocateSheetName usedSheetNames obj) #
       sheetNamesFrom (snd (allocateSheetName usedSheetNames obj)) objs"

definition sheetNames :: "(object_ref \<times> describe_response option) list \<Rightarrow> string list" where
  "sheetNames objects = sheetNamesFrom [] (map fst objects)"

text \<open>
  A writer with two of the library's checks: it throws for a sheet name that contains
  a slash and for one that the workbook already has, and adds the sheet otherwise.
\<close>

definition slashCheckingWriter :: sheet_writer where
  "slashCheckingWriter wb ws name =
     (if CHR ''/'' \<in> set name \<or> name \<in> fst ` set wb then Inl WriterError
      else Inr (wb @ [(name, ws)]))"

section \<open>The visibility rule of the specification\<close>

text \<open>
  The rule \<open>isVisible(row, query)\<close> in the specification's words, for comparison
  with the code: a row
  is visible for a query when the query is empty, or the field label, a space and the
  picklist annotation together contain it, or the API name contains it, or the raw
  field type contains it, where "contains" compares in lower case and looks for a
  contiguous substring.
\<close>

definition containsIgnoringCase :: "string \<Rightarrow> string \<Rightarrow> bool" where
  "containsIgnoringCase s q = includes_str (toLowerCase s) (toLowerCase q)"

definition isVisible :: "string \<Rightarrow> row \<Rightarrow> bool" where
  "isVisible query r =
     (query = [] \<or>
      containsIgnoringCase (cells r ! 0 @ '' '' @ annotation r) query \<or>
      containsIgnoringCase (cells r ! 1) query \<or>
      containsIgnoringCase (cells r ! 2) query)"

section \<open>The type column of the specification\<close>

text \<open>
  The rule for the type column in the specification's words, for comparison with the
  code: every data row of a sheet, that is every row after the header, stands for a
  field of the object, and its third cell is that field's raw type run through
  \<open>mapFieldTypeForExport\<close>. The fields of an object are those of the response to its
  \<open>fetchObjectDescribe\<close> request, none when there is no response or it has no fields.
\<close>

definition responseFields :: "describe_response option \<Rightarrow> field_description list" where
  "responseFields response =
     (case response of
        None \<Rightarrow> []
      | Some r \<Rightarrow> (case dr_fields r of None \<Rightarrow> [] | Some fs \<Rightarrow> fs))"

definition typeColumnNormalized :: "field_description list \<Rightarrow> sheet_data \<Rightarrow> bool" where
  "typeColumnNormalized fs data =
     (\<forall>d\<in>set (tl data). \<exists>f\<in>set fs.
        2 < length d \<and> d ! 2 = Str (mapFieldTypeForExport (fieldType f) (fieldLength f)))"

section \<open>Sample pages, objects and responses\<close>

text \<open>The rendered table of an object with a text field and a picklist field.\<close>

definition scenarioA :: "row list" where
  "scenarioA =
     [\<lparr>cells = [''Name'', ''Name'', ''String''], picklistText = Some '''',
       picklistFetched = Some ''true'', title = None, display = ''''\<rparr>,
      \<lparr>cells = [''Status'', ''Status__c'', ''Picklist''], picklistText = Some ''Active;Inactive'',
       picklistFetched = Some ''true'', title = Some ''Active;Inactive'', display = ''''\<rparr>]"

text \<open>Two objects, the second of which cannot be described.\<close>

definition scenarioB :: "(object_ref \<times> describe_response option) list" where
  "scenarioB =
      [(\<lparr>objectLabel = ''Account'', objectApiName = ''Account''\<rparr>,
        Some \<lparr>dr_success = True,
              dr_fields = Some [\<lparr>fieldLabel = ''Name'', fieldApiName = ''Name'',
                                 fieldType = ''string'', fieldLength = Some 255,
                                 picklistValues = ''''\<rparr>],
              dr_error = None\<rparr>),
       (\<lparr>objectLabel = ''Invoice'', objectApiName = ''Invoice__c''\<rparr>,
        Some \<lparr>dr_success = False, dr_fields = None, dr_error = Some ''INVALID_TYPE''\<rparr>)]"


text \<open>A row hidden by an earlier query.\<close>

definition statusRow :: row where
  "statusRow = \<lparr>cells = [''Mystatus'', ''Mystatus__c'', ''Text''], picklistText = None,
                 picklistFetched = Some ''true'', title = None, display = ''none''\<rparr>"

text \<open>A hidden row whose label has a letter outside ASCII (\<open>Caf\<close> and e with acute).\<close>

definition accentRow :: row where
  "accentRow = \<lparr>cells = [''Caf'' @ [CHR 0xE9], ''Cafe__c'', ''Text''], picklistText = None,
                 picklistFetched = Some ''true'', title = None, display = ''none''\<rparr>"

text \<open>A picklist row that has not been enriched yet, hidden by an earlier query.\<close>

definition picklistRow :: row where
  "picklistRow = \<lparr>cells = [''Status'', ''Status__c'', ''Picklist''], picklistText = None,
                   picklistFetched = None, title = None, display = ''none''\<rparr>"

text \<open>A detail page: a row already processed and a picklist row not yet processed.\<close>

definition processedRow :: row where
  "processedRow = \<lparr>cells = [''Name'', ''Name'', ''Text(80)''], picklistText = Some '''',
                    picklistFetched = Some ''true'', title = None, display = ''''\<rparr>"

definition detailPage :: page where
  "detailPage = \<lparr>origin = ''https://example.lightning.force.com'',
                  tableBody = Some [processedRow, picklistRow],
                  customQuickFind = None, console = [], outbox = []\<rparr>"

definition statusRequest :: picklist_request where
  "statusRequest = \<lparr>req_row = 1, req_objectName = ''Invoice__c'', req_fieldApiName = ''Status__c'',
                     req_origin = ''https://example.lightning.force.com'', req_isStandard = False\<rparr>"

section \<open>Evaluating the string functions\<close>

lemmas letters = upperLetters_def lowerLetters_def

lemmas lower_eval = toLowerCase_def toLowerChar_def letters

lemmas upper_eval = toUpperCase_def toUpperChar_def letters

lemmas number_eval = numberToString_def natToString_small natToString_large digitChar_def

lemma latin1_examples:
  "trim (CHR 0xA0 # ''status'') = ''status'' \<and>
   toLowerCase (''CAF'' @ [CHR 0xC9]) = ''caf'' @ [CHR 0xE9] \<and>
   toUpperCase [CHR 0xDF] = ''SS''"
  by (simp add: trim_def isWhiteSpace_def lower_eval upper_eval)

section \<open>The field-type mapping\<close>

text \<open>
  Claim C3. \<open>mapFieldTypeForExport\<close> is a function of the raw type string and the
  optional length alone, defined on every such pair (it has no failing branch: every
  operation it applies to a string is defined on all strings). Comparing the raw type in
  lower case: \<open>reference\<close> gives \<open>Lookup(User)\<close>; \<open>double\<close> gives
  \<open>Number(4,0)\<close>; \<open>string\<close> gives \<open>Text(500)\<close> when the length is absent or
  zero and \<open>Text(n)\<close> for any other length \<open>n\<close> (an exact JavaScript integer,
  below \<open>2^53\<close> in absolute value, printed in decimal); any other raw type comes back
  with its first character in upper case and the rest as it was. Upper-casing keeps the
  length, except for a leading sharp s, which becomes \<open>SS\<close>.
\<close>

theorem mapFieldTypeForExport_table:
  "(toLowerCase t = ''reference'' \<longrightarrow> mapFieldTypeForExport t l = ''Lookup(User)'') \<and>
   (toLowerCase t = ''double'' \<longrightarrow> mapFieldTypeForExport t l = ''Number(4,0)'') \<and>
   (toLowerCase t = ''string'' \<longrightarrow>
      mapFieldTypeForExport t None = ''Text(500)'' \<and>
      mapFieldTypeForExport t (Some 0) = ''Text(500)'' \<and>
      (\<forall>n. n \<noteq> 0 \<and> \<bar>n\<bar> < 2 ^ 53 \<longrightarrow>
         mapFieldTypeForExport t (Some n) = ''Text('' @ numberToString n @ '')'')) \<and>
   (toLowerCase t \<notin> {''reference'', ''double'', ''string''} \<and> upperCaseFits (take 1 t) \<longrightarrow>
      mapFieldTypeForExport t l = toUpperCase (take 1 t) @ drop 1 t \<and>
      (take 1 t \<noteq> [CHR 0xDF] \<longrightarrow> length (mapFieldTypeForExport t l) = length t))"
proof -
  have first: "charAt t 0 = take 1 t" by (cases t) (simp_all add: charAt_def)
  have one: "c \<noteq> CHR 0xDF \<Longrightarrow> length (toUpperChar c) = 1" for c
    by (simp add: toUpperChar_def split: option.splits)
  have len: "take 1 t \<noteq> [CHR 0xDF] \<longrightarrow> length (toUpperCase (take 1 t) @ drop 1 t) = length t"
    by (cases t) (simp_all add: toUpperCase_def one)
  have n500: "numberToString 500 = ''500''" by (simp add: number_eval)
  show ?thesis
    using len by (simp add: mapFieldTypeForExport_def orDefault_def first slice_def n500)
qed

theorem mapFieldTypeForExport_table_witness:
  "mapFieldTypeForExport ''reference'' (Some 18) = ''Lookup(User)'' \<and>
   mapFieldTypeForExport ''Double'' None = ''Number(4,0)'' \<and>
   mapFieldTypeForExport ''string'' None = ''Text(500)'' \<and>
   mapFieldTypeForExport ''STRING'' (Some 0) = ''Text(500)'' \<and>
   mapFieldTypeForExport ''string'' (Some 120) = ''Text(120)'' \<and>
   mapFieldTypeForExport ''Checkbox'' None = ''Checkbox'' \<and>
   mapFieldTypeForExport ''picklist'' (Some 255) = ''Picklist'' \<and>
   mapFieldTypeForExport (CHR 0xDF # ''eta'') None = ''SSeta'' \<and>
   mapFieldTypeForExport (CHR 0xE9 # ''cran'') None = CHR 0xC9 # ''cran'' \<and>
   length (mapFieldTypeForExport (CHR 0xE9 # ''cran'') None) = length (CHR 0xE9 # ''cran'')"
proof -
  have n: "numberToString 120 = ''120''" "(120::int) \<noteq> 0 \<and> \<bar>120::int\<bar> < 2 ^ 53"
    by (simp_all add: number_eval)
  have l: "toLowerCase ''reference'' = ''reference''" "toLowerCase ''Double'' = ''double''"
    "toLowerCase ''string'' = ''string''" "toLowerCase ''STRING'' = ''string''"
    "toLowerCase ''Checkbox'' = ''checkbox''" "toLowerCase ''picklist'' = ''picklist''"
    "toLowerCase (CHR 0xDF # ''eta'') = CHR 0xDF # ''eta''"
    "toLowerCase (CHR 0xE9 # ''cran'') = CHR 0xE9 # ''cran''"
    by (simp_all add: lower_eval)
  have u: "toUpperCase ''C'' = ''C''" "toUpperCase ''p'' = ''P''"
    "toUpperCase [CHR 0xDF] = ''SS''" "toUpperCase [CHR 0xE9] = [CHR 0xC9]"
    by (simp_all add: upper_eval)
  have f: "upperCaseFits ''C''" "upperCaseFits ''p''" "upperCaseFits [CHR 0xDF]"
    "upperCaseFits [CHR 0xE9]"
    by (simp_all add: upperCaseFits_def)
  show ?thesis
    using mapFieldTypeForExport_table [of "''reference''" "Some 18"]
          mapFieldTypeForExport_table [of "''Double''" None]
          mapFieldTypeForExport_table [of "''string''" None]
          mapFieldTypeForExport_table [of "''STRING''" None]
          mapFieldTypeForExport_table [of "''Checkbox''" None]
          mapFieldTypeForExport_table [of "''picklist''" "Some 255"]
          mapFieldTypeForExport_table [of "CHR 0xDF # ''eta''" None]
          mapFieldTypeForExport_table [of "CHR 0xE9 # ''cran''" None]
          n(2)
    by (simp add: l u f n(1))
qed

section \<open>Sheet names: the array is only read\<close>

declare getUniqueSheetName_loop.simps [simp del]

lemma getUniqueSheetName_loop_frame:
  "snd (getUniqueSheetName_loop n E k u) = E"
proof (induction n E k u rule: getUniqueSheetName_loop.induct)
  case (1 sheetName existingNames suffix uniqueName)
  show ?case
  proof (cases "uniqueName \<in> set existingNames")
    case True
    with 1 show ?thesis
      by (subst getUniqueSheetName_loop.simps) (simp add: array_includes_def)
  next
    case False
    then show ?thesis
      by (subst getUniqueSheetName_loop.simps) (simp add: array_includes_def)
  qed
qed

section \<open>The Quick Find filter\<close>

lemma startsWith_iff: "startsWith s q \<longleftrightarrow> (\<exists>r. s = q @ r)"
proof
  assume "startsWith s q"
  then have "s = q @ drop (length q) s"
    by (metis startsWith_def append_take_drop_id)
  then show "\<exists>r. s = q @ r" ..
next
  assume "\<exists>r. s = q @ r"
  then show "startsWith s q" by (auto simp: startsWith_def)
qed

lemma includes_str_iff: "includes_str s q \<longleftrightarrow> (\<exists>p r. s = p @ q @ r)"
proof (induction s)
  case Nil
  show ?case by simp
next
  case (Cons c s)
  show ?case
  proof
    assume "includes_str (c # s) q"
    then consider "startsWith (c # s) q" | "includes_str s q" by auto
    then show "\<exists>p r. c # s = p @ q @ r"
    proof cases
      case 1
      then obtain r where "c # s = q @ r" by (auto simp: startsWith_iff)
      then have "c # s = [] @ q @ r" by simp
      then show ?thesis by blast
    next
      case 2
      with Cons.IH obtain p r where "s = p @ q @ r" by blast
      then have "c # s = (c # p) @ q @ r" by simp
      then show ?thesis by blast
    qed
  next
    assume "\<exists>p r. c # s = p @ q @ r"
    then obtain p r where e: "c # s = p @ q @ r" by blast
    show "includes_str (c # s) q"
    proof (cases p)
      case Nil
      with e have "startsWith (c # s) q" by (auto simp: startsWith_iff)
      then show ?thesis by simp
    next
      case (Cons a p')
      with e have "s = p' @ q @ r" by simp
      with Cons.IH have "includes_str s q" by blast
      then show ?thesis by simp
    qed
  qed
qed

lemma trim_sublist: "\<exists>p r. s = p @ trim s @ r"
proof -
  let ?t = "dropWhile isWhiteSpace s"
  have "rev (takeWhile isWhiteSpace (rev ?t) @ dropWhile isWhiteSpace (rev ?t)) = ?t"
    by (simp only: takeWhile_dropWhile_id rev_rev_ident)
  then have "trim s @ rev (takeWhile isWhiteSpace (rev ?t)) = ?t"
    by (simp only: rev_append trim_def)
  moreover have "s = takeWhile isWhiteSpace s @ ?t" by simp
  ultimately have "s = takeWhile isWhiteSpace s @ trim s @ rev (takeWhile isWhiteSpace (rev ?t))"
    by simp
  then show ?thesis by blast
qed

lemma includes_str_trim:
  assumes "includes_str s (toLowerCase v)"
  shows "includes_str s (toLowerCase (trim v))"
proof -
  from assms obtain p r where s: "s = p @ toLowerCase v @ r" by (auto simp: includes_str_iff)
  obtain a b where v: "v = a @ trim v @ b" using trim_sublist by blast
  have "toLowerCase v = toLowerCase a @ toLowerCase (trim v) @ toLowerCase b"
    by (subst v) (simp add: toLowerCase_def)
  with s have "s = (p @ toLowerCase a) @ toLowerCase (trim v) @ (toLowerCase b @ r)" by simp
  then show ?thesis unfolding includes_str_iff by blast
qed

lemma rowMatches_isVisible: "rowMatches (toLowerCase q) r = isVisible q r"
proof -
  have sp: "toLowerChar CHR '' '' = CHR '' ''" by (simp add: toLowerChar_def letters)
  have e: "toLowerCase q = [] \<longleftrightarrow> q = []" by (simp add: toLowerCase_def)
  have a: "(case picklistText r of None \<Rightarrow> [] | Some t \<Rightarrow> if t = [] then [] else toLowerCase t)
             = toLowerCase (annotation r)"
    by (simp add: annotation_def toLowerCase_def split: option.splits)
  show ?thesis
    unfolding rowMatches_def isVisible_def containsIgnoringCase_def Let_def a e
    by (simp add: toLowerCase_def sp)
qed

lemma filterRow_eq:
  "3 \<le> length (cells r) \<Longrightarrow>
     filterRow (toLowerCase q) r = r\<lparr>display := (if isVisible q r then [] else ''none'')\<rparr>"
  by (simp add: filterRow_def rowMatches_isVisible)

lemma onQuickFindInput_nth:
  assumes "k < length rows" and "3 \<le> length (cells (rows ! k))"
  shows "\<exists>rows'. onQuickFindInput v (Some rows) = Some rows' \<and> length rows' = length rows \<and>
           rows' ! k = (rows ! k)\<lparr>display := (if isVisible (trim v) (rows ! k) then [] else ''none'')\<rparr>"
  using assms by (simp add: onQuickFindInput_def filterRow_eq)

text \<open>
  Claim C6, as amended. For every row with at least three cells and every value of the
  search box, \<open>onQuickFindInput\<close> leaves the row with \<open>style.display\<close> empty
  (visible) exactly when the specification's rule holds of the value with its leading
  and trailing white space removed (the no-break space included), and with
  \<open>style.display\<close> \<open>none\<close> otherwise; nothing else of the row changes. Letters
  are compared as \<open>toLowerCase\<close> pairs them, the accented capitals with their small
  forms.
\<close>

theorem quick_find_visible_iff:
  assumes "k < length rows" and "3 \<le> length (cells (rows ! k))"
  shows "\<exists>rows'. onQuickFindInput v (Some rows) = Some rows' \<and>
           length rows' = length rows \<and>
           (display (rows' ! k) = '''' \<longleftrightarrow> isVisible (trim v) (rows ! k)) \<and>
           (display (rows' ! k) = '''' \<or> display (rows' ! k) = ''none'') \<and>
           rows' ! k = (rows ! k)\<lparr>display := display (rows' ! k)\<rparr>"
proof -
  from onQuickFindInput_nth[OF assms, of v] obtain rows' where
    r: "onQuickFindInput v (Some rows) = Some rows'" "length rows' = length rows"
       "rows' ! k = (rows ! k)\<lparr>display := (if isVisible (trim v) (rows ! k) then [] else ''none'')\<rparr>"
    by blast
  from r(3) have "display (rows' ! k) = (if isVisible (trim v) (rows ! k) then [] else ''none'')"
    by simp
  with r show ?thesis by auto
qed

lemmas includes_eval = startsWith_def lower_eval

text \<open>
  The rule does not hold of the value as typed. With \<open>" status"\<close> in the search box
  (a leading space), a hidden row labelled \<open>Mystatus\<close> becomes visible, although
  none of its texts contains \<open>" status"\<close>: the handler trims the value first.
\<close>

theorem quick_find_untrimmed_counterexample:
  "onQuickFindInput '' status'' (Some [statusRow]) = Some [statusRow\<lparr>display := ''''\<rparr>] \<and>
   \<not> isVisible '' status'' statusRow"
proof -
  have t: "trim '' status'' = ''status''" by (simp add: trim_def isWhiteSpace_def)
  have l: "toLowerCase ''status'' = ''status''" by (simp add: lower_eval)
  have m: "rowMatches ''status'' statusRow"
    by (simp add: rowMatches_def statusRow_def includes_eval)
  have n: "\<not> isVisible '' status'' statusRow"
    by (simp add: isVisible_def containsIgnoringCase_def statusRow_def annotation_def includes_eval)
  from m have "filterRow ''status'' statusRow = statusRow\<lparr>display := ''''\<rparr>"
    by (simp add: filterRow_def statusRow_def)
  with n show ?thesis by (simp add: onQuickFindInput_def t l)
qed

theorem quick_find_visible_iff_witness:
  "0 < length [statusRow] \<and> 3 \<le> length (cells ([statusRow] ! 0)) \<and>
   isVisible (trim '' status'') statusRow \<and>
   (\<exists>rows'. onQuickFindInput '' status'' (Some [statusRow]) = Some rows' \<and>
      display (rows' ! 0) = '''') \<and>
   isVisible (trim (CHR 0xA0 # ''STATUS'')) statusRow \<and>
   (\<exists>rows'. onQuickFindInput (CHR 0xA0 # ''STATUS'') (Some [statusRow]) = Some rows' \<and>
      display (rows' ! 0) = '''') \<and>
   0 < length [accentRow] \<and> 3 \<le> length (cells ([accentRow] ! 0)) \<and>
   isVisible (trim (''CAF'' @ [CHR 0xC9])) accentRow \<and>
   (\<exists>rows'. onQuickFindInput (''CAF'' @ [CHR 0xC9]) (Some [accentRow]) = Some rows' \<and>
      display (rows' ! 0) = '''')"
proof -
  have h1: "0 < length [statusRow]" by simp
  have h2: "3 \<le> length (cells ([statusRow] ! 0))" by (simp add: statusRow_def)
  have t: "trim '' status'' = ''status''" by (simp add: trim_def isWhiteSpace_def)
  have t': "trim (CHR 0xA0 # ''STATUS'') = ''STATUS''" by (simp add: trim_def isWhiteSpace_def)
  have v: "isVisible ''status'' statusRow"
    by (simp add: isVisible_def containsIgnoringCase_def statusRow_def annotation_def includes_eval)
  have v': "isVisible ''STATUS'' statusRow"
    by (simp add: isVisible_def containsIgnoringCase_def statusRow_def annotation_def includes_eval)
  from quick_find_visible_iff [OF h1 h2, of "'' status''"] h2 v
  have a: "\<exists>rows'. onQuickFindInput '' status'' (Some [statusRow]) = Some rows' \<and>
      display (rows' ! 0) = ''''"
    by (auto simp: t)
  from quick_find_visible_iff [OF h1 h2, of "CHR 0xA0 # ''STATUS''"] h2 v'
  have b: "\<exists>rows'. onQuickFindInput (CHR 0xA0 # ''STATUS'') (Some [statusRow]) = Some rows' \<and>
      display (rows' ! 0) = ''''"
    by (auto simp: t')
  have g1: "0 < length [accentRow]" by simp
  have g2: "3 \<le> length (cells ([accentRow] ! 0))" by (simp add: accentRow_def)
  have s: "trim (''CAF'' @ [CHR 0xC9]) = ''CAF'' @ [CHR 0xC9]"
    by (simp add: trim_def isWhiteSpace_def)
  have w: "isVisible (''CAF'' @ [CHR 0xC9]) accentRow"
    by (simp add: isVisible_def containsIgnoringCase_def accentRow_def annotation_def includes_eval)
  from quick_find_visible_iff [OF g1 g2, of "''CAF'' @ [CHR 0xC9]"] g2 w
  have c: "\<exists>rows'. onQuickFindInput (''CAF'' @ [CHR 0xC9]) (Some [accentRow]) = Some rows' \<and>
      display (rows' ! 0) = ''''"
    unfolding s by auto
  from h1 h2 v v' a b g1 g2 w c show ?thesis unfolding t t' s by (intro conjI)
qed

text \<open>
  Claim C7. Take a row with at least three cells and any value of the search box. If
  the row's annotation is replaced by a text that contains the value, compared in lower
  case, while its cells stay as they are, then \<open>onQuickFindInput\<close> leaves the row
  visible (whether or not it was visible before). With an empty search box every such
  row is left visible.
\<close>

theorem annotation_match_keeps_row_visible:
  assumes "k < length rows" and "3 \<le> length (cells (rows ! k))"
  shows "(containsIgnoringCase a' v \<longrightarrow>
            (\<exists>rows'. onQuickFindInput v (Some (rows[k := (rows ! k)\<lparr>picklistText := Some a'\<rparr>])) =
                        Some rows' \<and>
                      display (rows' ! k) = '''')) \<and>
         (\<exists>rows'. onQuickFindInput '''' (Some rows) = Some rows' \<and> display (rows' ! k) = '''')"
proof (intro conjI impI)
  assume c: "containsIgnoringCase a' v"
  let ?r = "(rows ! k)\<lparr>picklistText := Some a'\<rparr>"
  let ?rows = "rows[k := ?r]"
  from c have "includes_str (toLowerCase a') (toLowerCase (trim v))"
    unfolding containsIgnoringCase_def by (rule includes_str_trim)
  then obtain p s where "toLowerCase a' = p @ toLowerCase (trim v) @ s"
    by (auto simp: includes_str_iff)
  then have "toLowerCase (cells ?r ! 0 @ '' '' @ annotation ?r) =
               (toLowerCase (cells ?r ! 0 @ '' '') @ p) @ toLowerCase (trim v) @ s"
    by (simp add: annotation_def toLowerCase_def)
  then have "containsIgnoringCase (cells ?r ! 0 @ '' '' @ annotation ?r) (trim v)"
    unfolding containsIgnoringCase_def includes_str_iff by blast
  then have vis: "isVisible (trim v) ?r" by (simp add: isVisible_def)
  from assms have k: "k < length ?rows" and c3: "3 \<le> length (cells (?rows ! k))" by simp_all
  from assms(1) have e: "?rows ! k = ?r" by simp
  from onQuickFindInput_nth[OF k c3, of v] vis
  show "\<exists>rows'. onQuickFindInput v (Some ?rows) = Some rows' \<and> display (rows' ! k) = ''''"
    unfolding e by auto
next
  have t: "trim '''' = ''''" by (simp add: trim_def)
  have "isVisible '''' (rows ! k)" by (simp add: isVisible_def)
  with onQuickFindInput_nth[OF assms, of "''''"]
  show "\<exists>rows'. onQuickFindInput '''' (Some rows) = Some rows' \<and> display (rows' ! k) = ''''"
    by (auto simp: t)
qed

theorem annotation_match_keeps_row_visible_witness:
  "0 < length [picklistRow] \<and> 3 \<le> length (cells ([picklistRow] ! 0)) \<and>
   containsIgnoringCase ''Active;Inactive'' ''INACT'' \<and>
   (\<exists>rows'. onQuickFindInput ''INACT''
               (Some ([picklistRow][0 := ([picklistRow] ! 0)\<lparr>picklistText := Some ''Active;Inactive''\<rparr>])) =
               Some rows' \<and>
             display (rows' ! 0) = '''') \<and>
   (\<exists>rows'. onQuickFindInput '''' (Some [picklistRow]) = Some rows' \<and> display (rows' ! 0) = '''')"
proof -
  have h1: "0 < length [picklistRow]" by simp
  have h2: "3 \<le> length (cells ([picklistRow] ! 0))" by (simp add: picklistRow_def)
  have c: "containsIgnoringCase ''Active;Inactive'' ''INACT''"
    by (simp add: containsIgnoringCase_def includes_eval)
  from annotation_match_keeps_row_visible [OF h1 h2, of "''Active;Inactive''" "''INACT''"] h1 h2 c
  show ?thesis by blast
qed

section \<open>Picklist enrichment\<close>

lemma enrichRow_req_row: "m \<in> set (snd (enrichRow org n j r)) \<Longrightarrow> req_row m = j"
  by (auto simp: enrichRow_def Let_def fetchPicklistValuesViaBackground_def split: if_splits)

lemma enrichRows_Cons:
  "enrichRows org n i (r # rs) =
     (fst (enrichRow org n i r) # fst (enrichRows org n (Suc i) rs),
      snd (enrichRow org n i r) @ snd (enrichRows org n (Suc i) rs))"
  by (simp add: split_beta)

declare enrichRows.simps(2) [simp del]

lemma enrichRows_req_row_ge: "m \<in> set (snd (enrichRows org n i rows)) \<Longrightarrow> i \<le> req_row m"
proof (induction rows arbitrary: i)
  case Nil
  then show ?case by simp
next
  case (Cons r rs)
  from Cons.prems consider "m \<in> set (snd (enrichRow org n i r))"
    | "m \<in> set (snd (enrichRows org n (Suc i) rs))"
    by (auto simp: enrichRows_Cons)
  then show ?case
  proof cases
    case 1
    then show ?thesis by (simp add: enrichRow_req_row)
  next
    case 2
    then have "Suc i \<le> req_row m" by (rule Cons.IH)
    then show ?thesis by simp
  qed
qed

lemma enrichRows_length: "length (fst (enrichRows org n i rows)) = length rows"
  by (induction rows arbitrary: i) (simp_all add: enrichRows_Cons)

lemma enrichRows_nth:
  "k < length rows \<Longrightarrow> fst (enrichRows org n i rows) ! k = fst (enrichRow org n (i + k) (rows ! k))"
proof (induction rows arbitrary: i k)
  case Nil
  then show ?case by simp
next
  case (Cons r rs)
  show ?case
  proof (cases k)
    case 0
    then show ?thesis by (simp add: enrichRows_Cons)
  next
    case (Suc k')
    with Cons.prems have "k' < length rs" by simp
    then have "fst (enrichRows org n (Suc i) rs) ! k' = fst (enrichRow org n (Suc i + k') (rs ! k'))"
      by (rule Cons.IH)
    with Suc show ?thesis by (simp add: enrichRows_Cons)
  qed
qed

lemma enrichRows_requests_for:
  "k < length rows \<Longrightarrow>
     filter (\<lambda>m. req_row m = i + k) (snd (enrichRows org n i rows)) =
       snd (enrichRow org n (i + k) (rows ! k))"
proof (induction rows arbitrary: i k)
  case Nil
  then show ?case by simp
next
  case (Cons r rs)
  have split: "snd (enrichRows org n i (r # rs)) =
                 snd (enrichRow org n i r) @ snd (enrichRows org n (Suc i) rs)"
    by (simp add: enrichRows_Cons)
  show ?case
  proof (cases k)
    case 0
    have "filter (\<lambda>m. req_row m = i) (snd (enrichRow org n i r)) = snd (enrichRow org n i r)"
      by (rule filter_True) (simp add: enrichRow_req_row)
    moreover have "filter (\<lambda>m. req_row m = i) (snd (enrichRows org n (Suc i) rs)) = []"
    proof (rule filter_False, rule ballI)
      fix m assume "m \<in> set (snd (enrichRows org n (Suc i) rs))"
      then have "Suc i \<le> req_row m" by (rule enrichRows_req_row_ge)
      then show "\<not> req_row m = i" by simp
    qed
    ultimately show ?thesis using 0 by (simp add: split)
  next
    case (Suc k')
    with Cons.prems have k': "k' < length rs" by simp
    have "filter (\<lambda>m. req_row m = i + k) (snd (enrichRow org n i r)) = []"
    proof (rule filter_False, rule ballI)
      fix m assume "m \<in> set (snd (enrichRow org n i r))"
      then have "req_row m = i" by (rule enrichRow_req_row)
      with Suc show "\<not> req_row m = i + k" by simp
    qed
    moreover from Cons.IH[OF k', of "Suc i"] Suc
    have "filter (\<lambda>m. req_row m = i + k) (snd (enrichRows org n (Suc i) rs)) =
            snd (enrichRow org n (i + k) (rs ! k'))"
      by simp
    ultimately show ?thesis using Suc by (simp add: split)
  qed
qed

lemma enrichRow_again:
  "enrichRow org' n' j (fst (enrichRow org n i r)) = (fst (enrichRow org n i r), [])"
  by (simp add: enrichRow_def Let_def)

lemma enrichRows_again:
  "enrichRows org' n' j (fst (enrichRows org n i rows)) = (fst (enrichRows org n i rows), [])"
proof (induction rows arbitrary: i j)
  case Nil
  show ?case by simp
next
  case (Cons r rs)
  show ?case
    by (simp add: enrichRows_Cons enrichRow_again Cons.IH)
qed

lemma processPicklistRows_resolved:
  "tableBody pg = Some rows \<Longrightarrow> name \<noteq> [] \<Longrightarrow>
     processPicklistRows (Some name) pg =
       pg\<lparr>tableBody := Some (fst (enrichRows (origin pg) name 0 rows)),
          outbox := outbox pg @ snd (enrichRows (origin pg) name 0 rows)\<rparr>"
  by (simp add: processPicklistRows_def split_beta)

lemma processPicklistRows_unresolved:
  "tableBody pg = Some rows \<Longrightarrow> objectName = None \<or> objectName = Some [] \<Longrightarrow>
     processPicklistRows objectName pg =
       pg\<lparr>console := console pg @ [ConsoleError ''Could not determine object name.'' None]\<rparr>"
  by (auto simp: processPicklistRows_def)

lemma processPicklistRows_cases:
  assumes "tableBody pg = Some rows"
  obtains "processPicklistRows objectName pg =
       pg\<lparr>console := console pg @ [ConsoleError ''Could not determine object name.'' None]\<rparr>"
  | name where "name \<noteq> []" and "objectName = Some name" and "processPicklistRows objectName pg =
       pg\<lparr>tableBody := Some (fst (enrichRows (origin pg) name 0 rows)),
          outbox := outbox pg @ snd (enrichRows (origin pg) name 0 rows)\<rparr>"
proof (cases objectName)
  case None
  with assms that(1) show ?thesis by (simp add: processPicklistRows_unresolved)
next
  case (Some name)
  show ?thesis
  proof (cases "name = []")
    case True
    with Some assms that(1) show ?thesis by (simp add: processPicklistRows_unresolved)
  next
    case False
    with Some assms that(2) show ?thesis by (simp add: processPicklistRows_resolved)
  qed
qed

lemma processed_row_untouched:
  assumes "tableBody pg = Some rows" and "k < length rows"
    and "picklistFetched (rows ! k) = Some ''true''"
  shows "(\<exists>rows'. tableBody (processPicklistRows objectName pg) = Some rows' \<and>
                   rows' ! k = rows ! k) \<and>
         requestsFor k (processPicklistRows objectName pg) = requestsFor k pg"
proof (cases rule: processPicklistRows_cases[OF assms(1), of objectName])
  case 1
  with assms(1) show ?thesis by (simp add: requestsFor_def)
next
  case (2 name)
  from assms(3) have e: "enrichRow (origin pg) name k (rows ! k) = (rows ! k, [])"
    by (simp add: enrichRow_def)
  from enrichRows_nth[OF assms(2), of "origin pg" name 0] e
  have "fst (enrichRows (origin pg) name 0 rows) ! k = rows ! k" by simp
  moreover from enrichRows_requests_for[OF assms(2), of 0 "origin pg" name] e
  have "filter (\<lambda>m. req_row m = k) (snd (enrichRows (origin pg) name 0 rows)) = []" by simp
  ultimately show ?thesis using 2(3) by (simp add: requestsFor_def)
qed

lemma second_pass_no_op:
  assumes "tableBody pg = Some rows" and "name \<noteq> []"
  shows "tableBody (processPicklistRows objectName (processPicklistRows (Some name) pg)) =
           tableBody (processPicklistRows (Some name) pg) \<and>
         outbox (processPicklistRows objectName (processPicklistRows (Some name) pg)) =
           outbox (processPicklistRows (Some name) pg)"
proof -
  let ?pg1 = "processPicklistRows (Some name) pg"
  let ?rows1 = "fst (enrichRows (origin pg) name 0 rows)"
  from assms have pg1: "?pg1 = pg\<lparr>tableBody := Some ?rows1,
          outbox := outbox pg @ snd (enrichRows (origin pg) name 0 rows)\<rparr>"
    by (rule processPicklistRows_resolved)
  then have t1: "tableBody ?pg1 = Some ?rows1" by simp
  show ?thesis
  proof (cases rule: processPicklistRows_cases[OF t1, of objectName])
    case 1
    then show ?thesis by simp
  next
    case (2 name')
    from 2(3) show ?thesis by (simp add: enrichRows_again t1)
  qed
qed

text \<open>
  Claim C2. Let the table hold a row at position \<open>k\<close>.
  If the row's \<open>picklistFetched\<close> flag is set (its request is in flight or
  answered), a pass of \<open>processPicklistRows\<close>, whatever the object name resolves
  to, leaves the row as it is and sends no message for it.
  If the row is an unprocessed picklist row and a first pass runs with the object name
  resolved, that pass sends exactly one message for the row; a second pass before any
  response, whatever the object name resolves to then, sends nothing at all and leaves
  the table as the first pass left it. The two passes together send one message for the
  row.
\<close>

theorem enrichment_is_idempotent:
  assumes "tableBody pg = Some rows" and "k < length rows"
  shows "(picklistFetched (rows ! k) = Some ''true'' \<longrightarrow>
            (\<exists>rows'. tableBody (processPicklistRows objectName pg) = Some rows' \<and>
                      rows' ! k = rows ! k) \<and>
            requestsFor k (processPicklistRows objectName pg) = requestsFor k pg) \<and>
         (picklistFetched (rows ! k) \<noteq> Some ''true'' \<and> 3 \<le> length (cells (rows ! k)) \<and>
          includes_str (toLowerCase (cells (rows ! k) ! 2)) ''picklist'' \<and> name \<noteq> [] \<longrightarrow>
            (let pg1 = processPicklistRows (Some name) pg;
                 pg2 = processPicklistRows objectName pg1
             in requestsFor k pg1 =
                  requestsFor k pg @
                    [\<lparr>req_row = k, req_objectName = name,
                      req_fieldApiName = trim (cells (rows ! k) ! 1),
                      req_origin = origin pg,
                      req_isStandard = (\<not> endsWith (trim (cells (rows ! k) ! 1)) ''__c'')\<rparr>] \<and>
                requestsFor k pg2 = requestsFor k pg1 \<and>
                outbox pg2 = outbox pg1 \<and>
                tableBody pg2 = tableBody pg1))"
proof (rule conjI; rule impI)
  assume "picklistFetched (rows ! k) = Some ''true''"
  with assms show "(\<exists>rows'. tableBody (processPicklistRows objectName pg) = Some rows' \<and>
                      rows' ! k = rows ! k) \<and>
            requestsFor k (processPicklistRows objectName pg) = requestsFor k pg"
    by (rule processed_row_untouched)
next
  assume a: "picklistFetched (rows ! k) \<noteq> Some ''true'' \<and> 3 \<le> length (cells (rows ! k)) \<and>
          includes_str (toLowerCase (cells (rows ! k) ! 2)) ''picklist'' \<and> name \<noteq> []"
  then have name: "name \<noteq> []" by simp
  from a have e: "snd (enrichRow (origin pg) name k (rows ! k)) =
      [\<lparr>req_row = k, req_objectName = name,
        req_fieldApiName = trim (cells (rows ! k) ! 1),
        req_origin = origin pg,
        req_isStandard = (\<not> endsWith (trim (cells (rows ! k) ! 1)) ''__c'')\<rparr>]"
    by (simp add: enrichRow_def Let_def fetchPicklistValuesViaBackground_def)
  from enrichRows_requests_for[OF assms(2), of 0 "origin pg" name] e
  have "filter (\<lambda>m. req_row m = k) (snd (enrichRows (origin pg) name 0 rows)) =
      [\<lparr>req_row = k, req_objectName = name,
        req_fieldApiName = trim (cells (rows ! k) ! 1),
        req_origin = origin pg,
        req_isStandard = (\<not> endsWith (trim (cells (rows ! k) ! 1)) ''__c'')\<rparr>]"
    by simp
  then have one: "requestsFor k (processPicklistRows (Some name) pg) =
      requestsFor k pg @
      [\<lparr>req_row = k, req_objectName = name,
        req_fieldApiName = trim (cells (rows ! k) ! 1),
        req_origin = origin pg,
        req_isStandard = (\<not> endsWith (trim (cells (rows ! k) ! 1)) ''__c'')\<rparr>]"
    by (simp add: processPicklistRows_resolved[OF assms(1) name] requestsFor_def)
  from second_pass_no_op[OF assms(1) name, of objectName] one
  show "let pg1 = processPicklistRows (Some name) pg;
            pg2 = processPicklistRows objectName pg1
        in requestsFor k pg1 =
             requestsFor k pg @
               [\<lparr>req_row = k, req_objectName = name,
                 req_fieldApiName = trim (cells (rows ! k) ! 1),
                 req_origin = origin pg,
                 req_isStandard = (\<not> endsWith (trim (cells (rows ! k) ! 1)) ''__c'')\<rparr>] \<and>
           requestsFor k pg2 = requestsFor k pg1 \<and>
           outbox pg2 = outbox pg1 \<and>
           tableBody pg2 = tableBody pg1"
    by (simp add: Let_def requestsFor_def)
qed

lemma picklistRow_facts:
  "picklistFetched picklistRow \<noteq> Some ''true''"
  "picklistText picklistRow = None"
  "3 \<le> length (cells picklistRow)"
  "\<not> length (cells picklistRow) < 3"
  "includes_str (toLowerCase (cells picklistRow ! 2)) ''picklist''"
  "trim (cells picklistRow ! Suc 0) = ''Status__c''"
  "endsWith ''Status__c'' ''__c''"
  by (simp_all add: picklistRow_def includes_eval trim_def isWhiteSpace_def endsWith_def)

theorem enrichment_is_idempotent_witness:
  "tableBody detailPage = Some [processedRow, picklistRow] \<and>
   picklistFetched ([processedRow, picklistRow] ! 0) = Some ''true'' \<and>
   requestsFor 0 (processPicklistRows (Some ''Invoice__c'') detailPage) = [] \<and>
   picklistFetched ([processedRow, picklistRow] ! 1) \<noteq> Some ''true'' \<and>
   requestsFor 1 (processPicklistRows (Some ''Invoice__c'') detailPage) = [statusRequest] \<and>
   requestsFor 1 (processPicklistRows (Some ''Invoice__c'')
                    (processPicklistRows (Some ''Invoice__c'') detailPage)) = [statusRequest]"
proof -
  have tb: "tableBody detailPage = Some [processedRow, picklistRow]"
    by (simp add: detailPage_def)
  have k0: "0 < length [processedRow, picklistRow]" and k1: "1 < length [processedRow, picklistRow]"
    by simp_all
  have p: "picklistFetched ([processedRow, picklistRow] ! 0) = Some ''true''"
    by (simp add: processedRow_def)
  have r: "requestsFor 0 detailPage = []" "requestsFor (Suc 0) detailPage = []"
    "origin detailPage = ''https://example.lightning.force.com''"
    by (simp_all add: requestsFor_def detailPage_def)
  have n: "''Invoice__c'' \<noteq> []" by simp
  from enrichment_is_idempotent [OF tb k0, of "Some ''Invoice__c''" "''Invoice__c''"]
       enrichment_is_idempotent [OF tb k1, of "Some ''Invoice__c''" "''Invoice__c''"]
       tb p
  show ?thesis
    by (simp add: picklistRow_facts r Let_def statusRequest_def)
qed

lemma picklistResponse_failure:
  "\<not> responseOk response \<Longrightarrow>
     picklistResponse k apiName response pg =
       Inr (pg\<lparr>console := console pg @
                 [ConsoleError ''Error fetching picklist values:'' (responseError response)]\<rparr>)"
  by (simp add: picklistResponse_def)

text \<open>
  Claim C4. Take an unprocessed picklist row that carries no annotation, as the page
  renders it, and let \<open>processPicklistRows\<close> send its request. If the callback is
  then called with no response or with a response whose \<open>success\<close> is false, the
  callback returns normally (no exception), sends no further message, appends one
  \<open>console.error\<close> entry that carries the response's error, and leaves the table as
  it was: the row has its \<open>picklistFetched\<close> flag set and its annotation reads as
  the empty string.
\<close>

theorem failed_picklist_fetch_is_absorbed:
  assumes "tableBody pg = Some rows" and "k < length rows"
    and "picklistFetched (rows ! k) \<noteq> Some ''true''"
    and "annotation (rows ! k) = []"
    and "3 \<le> length (cells (rows ! k))"
    and "includes_str (toLowerCase (cells (rows ! k) ! 2)) ''picklist''"
    and "name \<noteq> []"
    and "\<not> responseOk response"
  shows "let pg1 = processPicklistRows (Some name) pg
         in \<exists>pg2 rows2.
              picklistResponse k apiName response pg1 = Inr pg2 \<and>
              outbox pg2 = outbox pg1 \<and>
              console pg2 =
                console pg1 @
                  [ConsoleError ''Error fetching picklist values:'' (responseError response)] \<and>
              tableBody pg2 = Some rows2 \<and>
              tableBody pg1 = Some rows2 \<and>
              length rows2 = length rows \<and>
              picklistFetched (rows2 ! k) = Some ''true'' \<and>
              annotation (rows2 ! k) = []"
proof -
  let ?rows1 = "fst (enrichRows (origin pg) name 0 rows)"
  from assms(3,5,6) have "fst (enrichRow (origin pg) name k (rows ! k)) =
      (rows ! k)\<lparr>picklistFetched := Some ''true''\<rparr>"
    by (simp add: enrichRow_def Let_def)
  with enrichRows_nth[OF assms(2), of "origin pg" name 0]
  have "?rows1 ! k = (rows ! k)\<lparr>picklistFetched := Some ''true''\<rparr>" by simp
  with assms(4) have "picklistFetched (?rows1 ! k) = Some ''true''" "annotation (?rows1 ! k) = []"
    by (simp_all add: annotation_def)
  then show ?thesis
    using assms(8)
    by (simp add: Let_def processPicklistRows_resolved[OF assms(1) assms(7)]
        picklistResponse_failure enrichRows_length)
qed

theorem failed_picklist_fetch_is_absorbed_witness:
  "\<not> responseOk None \<and>
   \<not> responseOk (Some \<lparr>pr_success = False, pr_data = None, pr_error = Some ''timeout''\<rparr>) \<and>
   (\<exists>pg2 rows2.
      picklistResponse 1 ''Status__c'' None (processPicklistRows (Some ''Invoice__c'') detailPage) =
        Inr pg2 \<and>
      outbox pg2 = [statusRequest] \<and>
      console pg2 = [ConsoleError ''Error fetching picklist values:'' None] \<and>
      tableBody pg2 = Some rows2 \<and>
      picklistFetched (rows2 ! 1) = Some ''true'' \<and> annotation (rows2 ! 1) = []) \<and>
   (\<exists>pg2 rows2.
      picklistResponse 1 ''Status__c''
        (Some \<lparr>pr_success = False, pr_data = None, pr_error = Some ''timeout''\<rparr>)
        (processPicklistRows (Some ''Invoice__c'') detailPage) = Inr pg2 \<and>
      console pg2 = [ConsoleError ''Error fetching picklist values:'' (Some ''timeout'')] \<and>
      tableBody pg2 = Some rows2 \<and>
      picklistFetched (rows2 ! 1) = Some ''true'' \<and> annotation (rows2 ! 1) = [])"
proof -
  have tb: "tableBody detailPage = Some [processedRow, picklistRow]"
    by (simp add: detailPage_def)
  have k1: "1 < length [processedRow, picklistRow]" by simp
  have f: "picklistFetched ([processedRow, picklistRow] ! 1) \<noteq> Some ''true''"
    "annotation ([processedRow, picklistRow] ! 1) = []"
    "3 \<le> length (cells ([processedRow, picklistRow] ! 1))"
    "includes_str (toLowerCase (cells ([processedRow, picklistRow] ! 1) ! 2)) ''picklist''"
    by (simp_all add: picklistRow_facts annotation_def)
  have n: "''Invoice__c'' \<noteq> []" by simp
  have r1: "\<not> responseOk None"
    and r2: "\<not> responseOk (Some \<lparr>pr_success = False, pr_data = None, pr_error = Some ''timeout''\<rparr>)"
    by (simp_all add: responseOk_def)
  have o: "outbox (processPicklistRows (Some ''Invoice__c'') detailPage) = [statusRequest]"
    "console (processPicklistRows (Some ''Invoice__c'') detailPage) = []"
    unfolding processPicklistRows_resolved[OF tb n]
    by (simp_all add: detailPage_def enrichRows_Cons enrichRow_def processedRow_def
        picklistRow_facts Let_def fetchPicklistValuesViaBackground_def statusRequest_def)
  from failed_picklist_fetch_is_absorbed [OF tb k1 f n r1, of "''Status__c''"]
       failed_picklist_fetch_is_absorbed [OF tb k1 f n r2, of "''Status__c''"]
       r1 r2
  show ?thesis
    by (simp add: Let_def o responseError_def) blast
qed

section \<open>Sheet names are fresh and short\<close>

lemma getUniqueSheetName_loop_taken:
  "u \<in> set E \<Longrightarrow>
     getUniqueSheetName_loop n E k u = getUniqueSheetName_loop n E (Suc k) (candidate n k)"
  by (subst getUniqueSheetName_loop.simps) (simp add: array_includes_def candidate_def)

lemma getUniqueSheetName_loop_free:
  "u \<notin> set E \<Longrightarrow> getUniqueSheetName_loop n E k u = (u, E)"
  by (subst getUniqueSheetName_loop.simps) (simp add: array_includes_def)

lemma getUniqueSheetName_loop_result:
  "fst (getUniqueSheetName_loop n E k u) \<notin> set E \<and>
   (if u \<in> set E
    then \<exists>j\<ge>k. fst (getUniqueSheetName_loop n E k u) = candidate n j \<and>
                (\<forall>i. k \<le> i \<and> i < j \<longrightarrow> candidate n i \<in> set E)
    else fst (getUniqueSheetName_loop n E k u) = u)"
proof (induction n E k u rule: getUniqueSheetName_loop.induct)
  case (1 sheetName existingNames suffix uniqueName)
  show ?case
  proof (cases "uniqueName \<in> set existingNames")
    case False
    then show ?thesis by (simp add: getUniqueSheetName_loop_free)
  next
    case True
    define c where "c = candidate sheetName suffix"
    define r where "r = fst (getUniqueSheetName_loop sheetName existingNames (Suc suffix) c)"
    have c_eq: "substring sheetName 0 (31 - int (length (numberToString (int suffix)))) @
                  numberToString (int suffix) = c"
      by (simp add: c_def candidate_def)
    have step: "fst (getUniqueSheetName_loop sheetName existingNames suffix uniqueName) = r"
      using True by (simp add: r_def c_def getUniqueSheetName_loop_taken)
    have inc: "(True, existingNames) = array_includes existingNames uniqueName"
      using True by (simp add: array_includes_def)
    note ih = "1.IH"[OF inc refl TrueI refl]
    have IH: "r \<notin> set existingNames \<and>
        (if c \<in> set existingNames
         then \<exists>j\<ge>Suc suffix. r = candidate sheetName j \<and>
                (\<forall>i. Suc suffix \<le> i \<and> i < j \<longrightarrow> candidate sheetName i \<in> set existingNames)
         else r = c)"
      using ih unfolding c_eq r_def Suc_eq_plus1[symmetric] by simp
    have "\<exists>j\<ge>suffix. r = candidate sheetName j \<and>
          (\<forall>i. suffix \<le> i \<and> i < j \<longrightarrow> candidate sheetName i \<in> set existingNames)"
    proof (cases "c \<in> set existingNames")
      case False
      with IH have "r = candidate sheetName suffix" by (simp add: c_def)
      then have "suffix \<le> suffix \<and> r = candidate sheetName suffix \<and>
          (\<forall>i. suffix \<le> i \<and> i < suffix \<longrightarrow> candidate sheetName i \<in> set existingNames)"
        by auto
      then show ?thesis by blast
    next
      case taken: True
      with IH obtain j where j: "Suc suffix \<le> j" "r = candidate sheetName j"
        "\<forall>i. Suc suffix \<le> i \<and> i < j \<longrightarrow> candidate sheetName i \<in> set existingNames"
        by auto
      have "\<forall>i. suffix \<le> i \<and> i < j \<longrightarrow> candidate sheetName i \<in> set existingNames"
      proof (intro allI impI)
        fix i assume i: "suffix \<le> i \<and> i < j"
        show "candidate sheetName i \<in> set existingNames"
        proof (cases "i = suffix")
          case True
          with taken show ?thesis by (simp add: c_def)
        next
          case False
          with i have "Suc suffix \<le> i \<and> i < j" by simp
          with j(3) show ?thesis by blast
        qed
      qed
      moreover from j(1) have "suffix \<le> j" by simp
      ultimately show ?thesis using j(2) by blast
    qed
    with IH True show ?thesis by (simp add: step)
  qed
qed

lemma length_natToString_exact:
  "10 ^ m \<le> i \<Longrightarrow> i < 10 ^ Suc m \<Longrightarrow> length (natToString i) = Suc m"
  using length_natToString_lower[of m i] length_natToString_upper[of i m] by simp

lemma candidate_eq:
  "candidate n i = take (31 - length (natToString i)) n @ natToString i"
proof -
  have "nat (31 - int (length (natToString i))) = 31 - length (natToString i)" by simp
  then show ?thesis by (simp add: candidate_def numberToString_int substring_from_0)
qed

lemma many_taken_names:
  assumes "\<forall>i. 10 ^ m \<le> i \<and> i < 10 ^ Suc m \<longrightarrow> candidate n i \<in> set E"
  shows "9 * 10 ^ m \<le> length E"
proof -
  let ?A = "{10 ^ m ..< 10 ^ Suc m} :: nat set"
  have inj: "inj_on (candidate n) ?A"
  proof (rule inj_onI)
    fix a b assume a: "a \<in> ?A" and b: "b \<in> ?A" and e: "candidate n a = candidate n b"
    from a have la: "length (natToString a) = Suc m" by (simp add: length_natToString_exact)
    from b have lb: "length (natToString b) = Suc m" by (simp add: length_natToString_exact)
    from e la lb have "natToString a = natToString b" by (simp add: candidate_eq)
    then show "a = b" by (rule natToString_inj)
  qed
  from assms have "candidate n ` ?A \<subseteq> set E" by auto
  then have "card (candidate n ` ?A) \<le> card (set E)" by (rule card_mono[rotated]) simp
  also have "card (set E) \<le> length E" by (rule card_length)
  finally have le: "card (candidate n ` ?A) \<le> length E" .
  have "card (candidate n ` ?A) = card ?A" by (rule card_image[OF inj])
  also have "card ?A = 9 * 10 ^ m" by simp
  finally have eq: "card (candidate n ` ?A) = 9 * 10 ^ m" .
  from le show ?thesis unfolding eq .
qed

lemma suffix_bound:
  assumes "1 \<le> j"
    and "\<forall>i. 1 \<le> i \<and> i < j \<longrightarrow> candidate n i \<in> set E"
    and "length E < 2 ^ 32"
  shows "j < 10 ^ 10"
proof (rule ccontr)
  assume "\<not> j < 10 ^ 10"
  then have big: "(10::nat) ^ 10 \<le> j" by simp
  have "\<forall>i. 10 ^ 9 \<le> i \<and> i < 10 ^ Suc 9 \<longrightarrow> candidate n i \<in> set E"
  proof (intro allI impI)
    fix i :: nat assume i: "10 ^ 9 \<le> i \<and> i < 10 ^ Suc 9"
    then have "1 \<le> i" by simp
    moreover from i big have "i < j" by simp
    ultimately show "candidate n i \<in> set E" using assms(2) by blast
  qed
  then have "9 * 10 ^ 9 \<le> length E" by (rule many_taken_names)
  with assms(3) show False by simp
qed

text \<open>
  Claim C1. \<open>getUniqueSheetName\<close> returns on every name and every array of used
  names: the loop is a total function, since among the names it tries there is always
  one that is not in the array. The returned name is never in the array. When the
  sheet name itself is free it is returned unchanged. Otherwise the returned name is
  \<open>sheetName.substring(0, 31 - digits) + suffix\<close> for the first suffix
  \<open>1, 2, 3, ...\<close> whose name is free, where \<open>digits\<close> is the number of decimal
  digits of the suffix: the base keeps the first \<open>31 - digits\<close> characters of the
  sheet name, exactly that many when the sheet name is at least that long and all of
  it otherwise. \<open>existingNames\<close> is a JavaScript array, so it has fewer than
  \<open>2^32\<close> elements: then the suffix stays below \<open>10^10\<close> (the counter is an
  exact integer throughout), and for a sheet name of at most 31 characters the returned
  name has at most 31 characters.
\<close>

theorem getUniqueSheetName_fresh_and_short:
  "let name = fst (getUniqueSheetName sheetName existingNames)
   in name \<notin> set existingNames \<and>
      (sheetName \<notin> set existingNames \<longrightarrow> name = sheetName) \<and>
      (sheetName \<in> set existingNames \<longrightarrow>
         (\<exists>suffix\<ge>1.
            (\<forall>j. 1 \<le> j \<and> j < suffix \<longrightarrow> candidate sheetName j \<in> set existingNames) \<and>
            (length existingNames < 2 ^ 32 \<longrightarrow> suffix < 10 ^ 10) \<and>
            (let digits = numberToString (int suffix);
                 base = substring sheetName 0 (31 - int (length digits))
             in name = base @ digits \<and>
                length base = min (length sheetName) (31 - length digits) \<and>
                (31 - length digits \<le> length sheetName \<longrightarrow>
                   length base = 31 - length digits)))) \<and>
      (length sheetName \<le> 31 \<and> length existingNames < 2 ^ 32 \<longrightarrow> length name \<le> 31)"
proof -
  define name where "name = fst (getUniqueSheetName sheetName existingNames)"
  have res: "name \<notin> set existingNames \<and>
     (if sheetName \<in> set existingNames
      then \<exists>j\<ge>1. name = candidate sheetName j \<and>
             (\<forall>i. 1 \<le> i \<and> i < j \<longrightarrow> candidate sheetName i \<in> set existingNames)
      else name = sheetName)"
    unfolding name_def getUniqueSheetName_def by (rule getUniqueSheetName_loop_result)
  have main: "(sheetName \<in> set existingNames \<longrightarrow>
         (\<exists>suffix\<ge>1.
            (\<forall>j. 1 \<le> j \<and> j < suffix \<longrightarrow> candidate sheetName j \<in> set existingNames) \<and>
            (length existingNames < 2 ^ 32 \<longrightarrow> suffix < 10 ^ 10) \<and>
            (let digits = numberToString (int suffix);
                 base = substring sheetName 0 (31 - int (length digits))
             in name = base @ digits \<and>
                length base = min (length sheetName) (31 - length digits) \<and>
                (31 - length digits \<le> length sheetName \<longrightarrow>
                   length base = 31 - length digits)))) \<and>
      (length sheetName \<le> 31 \<and> length existingNames < 2 ^ 32 \<longrightarrow> length name \<le> 31)"
  proof (cases "sheetName \<in> set existingNames")
    case False
    with res show ?thesis by simp
  next
    case True
    with res obtain j where j: "1 \<le> j" "name = candidate sheetName j"
      "\<forall>i. 1 \<le> i \<and> i < j \<longrightarrow> candidate sheetName i \<in> set existingNames"
      by auto
    have b: "length existingNames < 2 ^ 32 \<longrightarrow> j < 10 ^ 10"
    proof
      assume "length existingNames < 2 ^ 32"
      with j(1) j(3) show "j < 10 ^ 10" by (rule suffix_bound)
    qed
    have n: "name = take (31 - length (natToString j)) sheetName @ natToString j"
      using j(2) by (simp add: candidate_eq)
    have l: "length sheetName \<le> 31 \<and> length existingNames < 2 ^ 32 \<longrightarrow> length name \<le> 31"
    proof
      assume a: "length sheetName \<le> 31 \<and> length existingNames < 2 ^ 32"
      with b have "j < 10 ^ Suc 9" by simp
      then have "length (natToString j) \<le> 10"
        using length_natToString_upper[of j 9] by simp
      with n show "length name \<le> 31" by simp
    qed
    have shape: "let digits = numberToString (int j);
              base = substring sheetName 0 (31 - int (length digits))
          in name = base @ digits \<and>
             length base = min (length sheetName) (31 - length digits) \<and>
             (31 - length digits \<le> length sheetName \<longrightarrow> length base = 31 - length digits)"
    proof -
      have "nat (31 - int (length (natToString j))) = 31 - length (natToString j)" by simp
      with n show ?thesis by (simp add: Let_def numberToString_int substring_from_0)
    qed
    from j(1) j(3) b shape have "\<exists>suffix\<ge>1.
            (\<forall>j. 1 \<le> j \<and> j < suffix \<longrightarrow> candidate sheetName j \<in> set existingNames) \<and>
            (length existingNames < 2 ^ 32 \<longrightarrow> suffix < 10 ^ 10) \<and>
            (let digits = numberToString (int suffix);
                 base = substring sheetName 0 (31 - int (length digits))
             in name = base @ digits \<and>
                length base = min (length sheetName) (31 - length digits) \<and>
                (31 - length digits \<le> length sheetName \<longrightarrow>
                   length base = 31 - length digits))"
      by blast
    with l show ?thesis by simp
  qed
  from res main show ?thesis
    unfolding name_def[symmetric] Let_def[of name] by (simp split: if_splits)
qed

theorem getUniqueSheetName_fresh_and_short_witness:
  "length ''Account'' \<le> 31 \<and> length [''Account'', ''Account1''] < 2 ^ 32 \<and>
   ''Account'' \<in> set [''Account'', ''Account1''] \<and>
   fst (getUniqueSheetName ''Account'' [''Account'', ''Account1'']) = ''Account2'' \<and>
   fst (getUniqueSheetName ''Account'' [''Account'', ''Account1'']) \<notin> set [''Account'', ''Account1''] \<and>
   length ''Quarterly_Revenue_Forecast_Item'' \<le> 31 \<and>
   fst (getUniqueSheetName ''Quarterly_Revenue_Forecast_Item'' [''Quarterly_Revenue_Forecast_Item'']) =
     ''Quarterly_Revenue_Forecast_Ite1'' \<and>
   length (fst (getUniqueSheetName ''Quarterly_Revenue_Forecast_Item''
                  [''Quarterly_Revenue_Forecast_Item''])) \<le> 31 \<and>
   ''Opportunity'' \<notin> set [''Account''] \<and>
   fst (getUniqueSheetName ''Opportunity'' [''Account'']) = ''Opportunity''"
proof -
  have a1: "length ''Account'' \<le> 31" by simp
  have a2: "length [''Account'', ''Account1''] < 2 ^ 32" by simp
  have a3: "''Account'' \<in> set [''Account'', ''Account1'']" by simp
  have b1: "length ''Quarterly_Revenue_Forecast_Item'' \<le> 31" by simp
  have b2: "length [''Quarterly_Revenue_Forecast_Item''] < 2 ^ 32" by simp
  have c1: "''Opportunity'' \<notin> set [''Account'']" by simp
  have e1: "fst (getUniqueSheetName ''Account'' [''Account'', ''Account1'']) = ''Account2''"
    by code_simp
  have e2: "fst (getUniqueSheetName ''Quarterly_Revenue_Forecast_Item''
                   [''Quarterly_Revenue_Forecast_Item'']) = ''Quarterly_Revenue_Forecast_Ite1''"
    by code_simp
  from getUniqueSheetName_fresh_and_short [of "''Account''" "[''Account'', ''Account1'']"]
  have f1: "fst (getUniqueSheetName ''Account'' [''Account'', ''Account1'']) \<notin>
              set [''Account'', ''Account1'']"
    unfolding Let_def by (rule conjunct1)
  from getUniqueSheetName_fresh_and_short
         [of "''Quarterly_Revenue_Forecast_Item''" "[''Quarterly_Revenue_Forecast_Item'']"] b1 b2
  have f2: "length (fst (getUniqueSheetName ''Quarterly_Revenue_Forecast_Item''
                  [''Quarterly_Revenue_Forecast_Item''])) \<le> 31"
    unfolding Let_def by blast
  from getUniqueSheetName_fresh_and_short [of "''Opportunity''" "[''Account'']"] c1
  have f3: "fst (getUniqueSheetName ''Opportunity'' [''Account'']) = ''Opportunity''"
    unfolding Let_def by blast
  from a1 a2 a3 e1 f1 b1 e2 f2 c1 f3 show ?thesis by (intro conjI)
qed

section \<open>The caller adds the name\<close>

lemma getUniqueSheetName_result_fresh: "fst (getUniqueSheetName s used) \<notin> set used"
  unfolding getUniqueSheetName_def using getUniqueSheetName_loop_result[of s used 1 s] by simp

lemma getUniqueSheetName_frame: "snd (getUniqueSheetName s used) = used"
  by (simp add: getUniqueSheetName_def getUniqueSheetName_loop_frame)

lemma allocateSheetName_eq:
  "allocateSheetName used obj =
     (fst (getUniqueSheetName (truncate31 (objectLabel obj)) used),
      used @ [fst (getUniqueSheetName (truncate31 (objectLabel obj)) used)])"
  by (simp add: allocateSheetName_def Let_def split_beta getUniqueSheetName_frame)

lemma allocateSheetName_fresh: "fst (allocateSheetName used obj) \<notin> set used"
  by (simp add: allocateSheetName_eq getUniqueSheetName_result_fresh)

lemma allocateSheetName_pushes:
  "snd (allocateSheetName used obj) = used @ [fst (allocateSheetName used obj)]"
  by (simp add: allocateSheetName_eq)

lemma exportObject_eq:
  "exportObject w (wb, used) (obj, response) =
     (case w wb (objectData obj response) (fst (allocateSheetName used obj)) of
        Inl e \<Rightarrow> Inl e
      | Inr wb' \<Rightarrow> Inr (wb', used @ [fst (allocateSheetName used obj)]))"
  by (simp add: exportObject_def Let_def split_beta allocateSheetName_pushes split: sum.split)

text \<open>
  Claim C9. \<open>getUniqueSheetName\<close> hands \<open>existingNames\<close> back as it received it,
  for every sheet name and every array: it only reads the array. The name is added by
  the caller: the lines that name a sheet push the returned name onto
  \<open>usedSheetNames\<close>, and one turn of the export loop hands the sheet to the writer
  under that name and, unless the writer throws, goes on with the array so extended.
\<close>

theorem getUniqueSheetName_reads_only:
  "snd (getUniqueSheetName sheetName usedSheetNames) = usedSheetNames \<and>
   allocateSheetName usedSheetNames obj =
     (fst (getUniqueSheetName (truncate31 (objectLabel obj)) usedSheetNames),
      usedSheetNames @ [fst (getUniqueSheetName (truncate31 (objectLabel obj)) usedSheetNames)]) \<and>
   exportObject book_append_sheet (wb, usedSheetNames) (obj, response) =
     (case book_append_sheet wb (objectData obj response)
             (fst (getUniqueSheetName (truncate31 (objectLabel obj)) usedSheetNames)) of
        Inl e \<Rightarrow> Inl e
      | Inr wb' \<Rightarrow>
          Inr (wb', usedSheetNames @
                      [fst (getUniqueSheetName (truncate31 (objectLabel obj)) usedSheetNames)]))"
  by (simp add: getUniqueSheetName_frame allocateSheetName_eq exportObject_eq split: sum.split)

section \<open>The sheets of a bulk export\<close>

lemma length_sheetNamesFrom: "length (sheetNamesFrom used objs) = length objs"
  by (induction objs arbitrary: used) simp_all

lemma exportObjects_accepted:
  assumes "map fst wb = used"
    and "\<forall>n\<in>set (sheetNamesFrom used (map fst xs)). accepts w n"
  shows "exportObjects w (wb, used) xs =
           Inr (wb @ zip (sheetNamesFrom used (map fst xs))
                         (map (\<lambda>x. objectData (fst x) (snd x)) xs),
                used @ sheetNamesFrom used (map fst xs))"
  using assms
proof (induction xs arbitrary: wb used)
  case Nil
  then show ?case by simp
next
  case (Cons x xs)
  obtain obj response where x: "x = (obj, response)" by (cases x)
  define n where "n = fst (allocateSheetName used obj)"
  have "set used = fst ` set wb" unfolding Cons.prems(1)[symmetric] by simp
  then have fresh: "n \<notin> fst ` set wb"
    using allocateSheetName_fresh[of used obj] by (simp add: n_def)
  from Cons.prems(2) have acc: "accepts w n" by (simp add: x n_def)
  with fresh have w: "w wb (objectData obj response) n = Inr (wb @ [(n, objectData obj response)])"
    by (simp add: accepts_def)
  have step: "exportObject w (wb, used) (obj, response) = Inr (wb @ [(n, objectData obj response)], used @ [n])"
    by (simp add: exportObject_eq n_def[symmetric] w)
  have inv: "map fst (wb @ [(n, objectData obj response)]) = used @ [n]"
    using Cons.prems(1) by simp
  have rest: "\<forall>m\<in>set (sheetNamesFrom (used @ [n]) (map fst xs)). accepts w m"
    using Cons.prems(2) by (simp add: x n_def allocateSheetName_pushes)
  from Cons.IH[OF inv rest] show ?case
    by (simp add: step x n_def[symmetric] allocateSheetName_pushes)
qed

lemma exportObjects_accepted_all:
  assumes "\<forall>n\<in>set (sheetNames objects). accepts w n"
  shows "exportObjects w ([], []) objects =
           Inr (zip (sheetNames objects) (map (\<lambda>x. objectData (fst x) (snd x)) objects),
                sheetNames objects)"
  using exportObjects_accepted[of "[]" "[]" objects w] assms by (simp add: sheetNames_def)

lemma exportSelected_accepted:
  assumes "\<forall>n\<in>set (sheetNames objects). accepts w n"
  shows "exportSelectedObjectsToXLSX w objects =
           Inr (zip (sheetNames objects) (map (\<lambda>x. objectData (fst x) (snd x)) objects),
                ''selected_salesforce_objects_fields_export.xlsx'')"
  by (simp add: exportSelectedObjectsToXLSX_def exportObjects_accepted_all[OF assms])

lemma exportFull_accepted:
  assumes "\<forall>n\<in>set (sheetNames objects). accepts w n" and "0 < homeRows"
  shows "exportFullDatabaseToXLSX w homeRows objects =
           Some (Inr (zip (sheetNames objects) (map (\<lambda>x. objectData (fst x) (snd x)) objects),
                      ''salesforce_objects_fields_export.xlsx''))"
  using assms(2) by (simp add: exportFullDatabaseToXLSX_def exportObjects_accepted_all[OF assms(1)])

lemma length_sheetNames: "length (sheetNames objects) = length objects"
  by (simp add: sheetNames_def length_sheetNamesFrom)

lemma sheets_nth:
  "j < length objects \<Longrightarrow>
     snd (zip (sheetNames objects) (map (\<lambda>x. objectData (fst x) (snd x)) objects) ! j) =
       objectData (fst (objects ! j)) (snd (objects ! j))"
  by (simp add: length_sheetNames)


lemma accepts_slashCheckingWriter:
  "CHR ''/'' \<notin> set name \<Longrightarrow> accepts slashCheckingWriter name"
  by (simp add: accepts_def slashCheckingWriter_def)

lemma sheetNames_scenarioB: "sheetNames scenarioB = [''Account'', ''Invoice'']"
  by (simp add: sheetNames_def scenarioB_def allocateSheetName_eq getUniqueSheetName_def
      getUniqueSheetName_loop_free truncate31_def)

lemma accepts_scenarioB: "\<forall>name\<in>set (sheetNames scenarioB). accepts slashCheckingWriter name"
  by (simp add: sheetNames_scenarioB accepts_slashCheckingWriter)




section \<open>The sheet of the current object\<close>

lemma isWhiteSpace_cases:
  "isWhiteSpace c \<Longrightarrow>
     c = CHR 0x09 \<or> c = CHR 0x0A \<or> c = CHR 0x0B \<or> c = CHR 0x0C \<or> c = CHR 0x0D \<or> c = CHR 0x20 \<or>
     c = CHR 0xA0"
  by (simp add: isWhiteSpace_def)

lemma isWhiteSpace_toLowerChar: "isWhiteSpace c \<Longrightarrow> toLowerChar c = c"
proof -
  assume "isWhiteSpace c"
  then have "c = CHR 0x09 \<or> c = CHR 0x0A \<or> c = CHR 0x0B \<or> c = CHR 0x0C \<or> c = CHR 0x0D \<or> c = CHR 0x20 \<or>
     c = CHR 0xA0"
    by (rule isWhiteSpace_cases)
  then show ?thesis
    by (elim disjE) (simp_all add: toLowerChar_def letters)
qed

lemma not_isWhiteSpace_lower:
  "toLowerChar c = d \<Longrightarrow> \<not> isWhiteSpace d \<Longrightarrow> \<not> isWhiteSpace c"
  using isWhiteSpace_toLowerChar[of c] by (cases "isWhiteSpace c") simp_all

lemma trim_id: "s \<noteq> [] \<Longrightarrow> \<not> isWhiteSpace (hd s) \<Longrightarrow> \<not> isWhiteSpace (last s) \<Longrightarrow> trim s = s"
proof -
  assume ne: "s \<noteq> []" and h: "\<not> isWhiteSpace (hd s)" and l: "\<not> isWhiteSpace (last s)"
  from ne h have "dropWhile isWhiteSpace s = s" by (cases s) simp_all
  moreover from ne l have "\<not> isWhiteSpace (hd (rev s))" by (simp add: hd_rev)
  then have "dropWhile isWhiteSpace (rev s) = rev s" by (cases "rev s") simp_all
  ultimately show ?thesis by (simp add: trim_def)
qed

lemma trim_lower_string: "toLowerCase s = ''string'' \<Longrightarrow> trim s = s"
proof -
  assume a: "toLowerCase s = ''string''"
  then have "length (toLowerCase s) = 6" by simp
  then have ne: "s \<noteq> []" by (auto simp: toLowerCase_def)
  from a ne have "toLowerChar (hd s) = CHR ''s''"
    by (cases s) (simp_all add: toLowerCase_def)
  then have h: "\<not> isWhiteSpace (hd s)"
    by (rule not_isWhiteSpace_lower) (simp add: isWhiteSpace_def)
  from a have "last (toLowerCase s) = CHR ''g''" by simp
  with ne have "toLowerChar (last s) = CHR ''g''"
    by (simp add: toLowerCase_def last_map)
  then have l: "\<not> isWhiteSpace (last s)"
    by (rule not_isWhiteSpace_lower) (simp add: isWhiteSpace_def)
  from ne h l show ?thesis by (rule trim_id)
qed

lemma currentRowData_eq:
  "concat (map currentRowData rows) =
     map (\<lambda>r. [Str (trim (cells r ! 0)), Str (trim (cells r ! 1)),
                Str (mapFieldTypeForExport (trim (cells r ! 2)) (Some 500)),
                Str (trim (annotation r))])
         (filter (\<lambda>r. 3 \<le> length (cells r)) rows)"
proof -
  have t: "trim [] = []" by (simp add: trim_def)
  show ?thesis
    by (induction rows) (auto simp: currentRowData_def annotation_def t split: option.splits)
qed

lemma exportCurrent_data:
  "exportCurrentObjectFieldsToXLSX (Some rows) apiName =
     Inr ([(truncate31 (case apiName of None \<Rightarrow> ''Object'' | Some n \<Rightarrow> if n = [] then ''Object'' else n),
            currentHeader # concat (map currentRowData rows))],
          (case apiName of None \<Rightarrow> ''Object'' | Some n \<Rightarrow> if n = [] then ''Object'' else n)
            @ ''_fields_export.xlsx'')"
  by (simp add: exportCurrentObjectFieldsToXLSX_def Let_def)

lemma filter_nth_position:
  assumes "k < length xs" and "P (xs ! k)"
  shows "map g (filter P xs) ! length (filter P (take k xs)) = g (xs ! k)"
proof -
  from assms(1) have "xs = take k xs @ xs ! k # drop (Suc k) xs" by (rule id_take_nth_drop)
  then have "filter P xs = filter P (take k xs) @ filter P (xs ! k # drop (Suc k) xs)"
    by (metis filter_append)
  with assms(2) have "filter P xs = filter P (take k xs) @ xs ! k # filter P (drop (Suc k) xs)"
    by simp
  then have "map g (filter P xs) =
      map g (filter P (take k xs)) @ g (xs ! k) # map g (filter P (drop (Suc k) xs))"
    by simp
  then show ?thesis
    by (metis length_map nth_append_length)
qed

text \<open>
  Claim C10. In the export of the current object, a table row whose third cell reads
  \<open>string\<close> in any mix of upper and lower case is written with the field type
  \<open>Text(500)\<close>, whatever length the field was declared with: the routine passes the
  constant 500 to \<open>mapFieldTypeForExport\<close>. The row written for the \<open>k\<close>-th table
  row stands after the header at the position given by the number of earlier table rows
  that have at least three cells.
\<close>

theorem current_export_string_is_Text500:
  assumes "k < length rows"
    and "3 \<le> length (cells (rows ! k))"
    and "toLowerCase (cells (rows ! k) ! 2) = ''string''"
  shows "\<exists>name data file.
           exportCurrentObjectFieldsToXLSX (Some rows) apiName = Inr ([(name, data)], file) \<and>
           tl data ! length (filter (\<lambda>r. 3 \<le> length (cells r)) (take k rows)) =
             [Str (trim (cells (rows ! k) ! 0)), Str (trim (cells (rows ! k) ! 1)),
              Str ''Text(500)'', Str (trim (annotation (rows ! k)))]"
proof -
  from assms(3) have t: "trim (cells (rows ! k) ! 2) = cells (rows ! k) ! 2"
    by (rule trim_lower_string)
  from assms(3) have m: "mapFieldTypeForExport (cells (rows ! k) ! 2) (Some 500) = ''Text(500)''"
    by (simp add: mapFieldTypeForExport_def orDefault_def number_eval)
  have "map (\<lambda>r. [Str (trim (cells r ! 0)), Str (trim (cells r ! 1)),
                  Str (mapFieldTypeForExport (trim (cells r ! 2)) (Some 500)),
                  Str (trim (annotation r))])
          (filter (\<lambda>r. 3 \<le> length (cells r)) rows)
        ! length (filter (\<lambda>r. 3 \<le> length (cells r)) (take k rows)) =
        [Str (trim (cells (rows ! k) ! 0)), Str (trim (cells (rows ! k) ! 1)),
         Str (mapFieldTypeForExport (trim (cells (rows ! k) ! 2)) (Some 500)),
         Str (trim (annotation (rows ! k)))]"
    using assms(1) assms(2) by (rule filter_nth_position)
  then show ?thesis
    by (simp add: exportCurrent_data currentRowData_eq t m)
qed

lemmas trim_eval = trim_def isWhiteSpace_def

theorem current_export_string_is_Text500_witness:
  "0 < length scenarioA \<and>
   3 \<le> length (cells (scenarioA ! 0)) \<and>
   toLowerCase (cells (scenarioA ! 0) ! 2) = ''string'' \<and>
   (\<exists>name data file.
      exportCurrentObjectFieldsToXLSX (Some scenarioA) (Some ''Account'') =
        Inr ([(name, data)], file) \<and>
      tl data ! 0 = [Str ''Name'', Str ''Name'', Str ''Text(500)'', Str ''''])"
proof -
  have h1: "0 < length scenarioA" by (simp add: scenarioA_def)
  have h2: "3 \<le> length (cells (scenarioA ! 0))" by (simp add: scenarioA_def)
  have h3: "toLowerCase (cells (scenarioA ! 0) ! 2) = ''string''"
    by (simp add: scenarioA_def lower_eval)
  have e: "trim (cells (scenarioA ! 0) ! 0) = ''Name''" "trim (cells (scenarioA ! 0) ! Suc 0) = ''Name''"
    "trim (annotation (scenarioA ! 0)) = ''''"
    by (simp_all add: scenarioA_def trim_eval annotation_def)
  from current_export_string_is_Text500 [OF h1 h2 h3, of "Some ''Account''"] h1 h2 h3
  show ?thesis by (simp add: e)
qed

section \<open>Headers and the type column\<close>

lemma mapFieldTypeForExport_string_255: "mapFieldTypeForExport ''string'' (Some 255) = ''Text(255)''"
  by (simp add: mapFieldTypeForExport_def lower_eval orDefault_def number_eval)

lemma objectData_scenarioB:
  "map (\<lambda>x. objectData (fst x) (snd x)) scenarioB =
     [[[Str ''Field Label'', Str ''API Name'', Str ''Field Type'', Str ''Field Length'',
        Str ''Picklist Values''],
       [Str ''Name'', Str ''Name'', Str ''Text(255)'', Num 255, Str '''']],
      [[Str ''Field Label'', Str ''API Name'', Str ''Field Type'', Str ''Field Length'',
        Str ''Picklist Values''],
       [Str ''Invoice'', Str ''Invoice__c'', Str ''Error fetching fields'', Str '''', Str '''']]]"
  by (simp add: scenarioB_def objectData_def describedFields_def fieldData_def errorData_def
      bulkHeader_def mapFieldTypeForExport_string_255)

text \<open>
  Claim C8, as amended. The export of the current object builds one sheet whose first
  row is \<open>["Field Label", "API Name", "Field Type", "Picklist Values"]\<close>, with no
  "Field Length" column, followed by one row for each table row that has at least
  three cells, in order; the third cell of such a row is \<open>mapFieldTypeForExport\<close> of
  the trimmed text of the table row's third cell, with the length 500. When the writer
  accepts every allocated sheet name, the bulk export and the export of selected objects
  build, for each object, a sheet whose first row is
  \<open>["Field Label", "API Name", "Field Type", "Field Length", "Picklist Values"]\<close>.
  When the object's fields were fetched, one row for each field follows, in order, whose
  third cell is \<open>mapFieldTypeForExport\<close> of the field's raw type and length. When
  they were not, the single row
  \<open>[objectLabel, objectApiName, "Error fetching fields", "", ""]\<close> follows: its third
  cell is the literal marker and comes from no raw type. The rows that stand for a field
  are stated for the raw types and lengths in the range described with
  \<open>upperCaseFits\<close> and \<open>mappingFits\<close>.
\<close>

theorem export_headers_and_mapped_types:
  assumes "k < length objects"
    and "\<forall>name\<in>set (sheetNames objects). accepts book_append_sheet name"
    and "0 < homeRows"
  shows "(\<exists>name data file.
            exportCurrentObjectFieldsToXLSX (Some rows) apiName = Inr ([(name, data)], file) \<and>
            hd data = [Str ''Field Label'', Str ''API Name'', Str ''Field Type'', Str ''Picklist Values''] \<and>
            length (tl data) = length (filter (\<lambda>r. 3 \<le> length (cells r)) rows) \<and>
            (\<forall>i<length (tl data).
               let r = filter (\<lambda>r. 3 \<le> length (cells r)) rows ! i
               in upperCaseFits (take 1 (trim (cells r ! 2))) \<longrightarrow>
                  tl data ! i =
                    [Str (trim (cells r ! 0)), Str (trim (cells r ! 1)),
                     Str (mapFieldTypeForExport (trim (cells r ! 2)) (Some 500)),
                     Str (trim (annotation r))])) \<and>
         (\<exists>wb. exportSelectedObjectsToXLSX book_append_sheet objects =
                  Inr (wb, ''selected_salesforce_objects_fields_export.xlsx'') \<and>
               exportFullDatabaseToXLSX book_append_sheet homeRows objects =
                  Some (Inr (wb, ''salesforce_objects_fields_export.xlsx'')) \<and>
               length wb = length objects \<and>
               hd (snd (wb ! k)) =
                 [Str ''Field Label'', Str ''API Name'', Str ''Field Type'', Str ''Field Length'',
                  Str ''Picklist Values''] \<and>
               (case describedFields (snd (objects ! k)) of
                  Some fs \<Rightarrow>
                    length (tl (snd (wb ! k))) = length fs \<and>
                    (\<forall>i<length fs.
                       mappingFits (fieldType (fs ! i)) (fieldLength (fs ! i)) \<longrightarrow>
                       tl (snd (wb ! k)) ! i =
                         [Str (fieldLabel (fs ! i)), Str (fieldApiName (fs ! i)),
                          Str (mapFieldTypeForExport (fieldType (fs ! i)) (fieldLength (fs ! i))),
                          (case fieldLength (fs ! i) of
                             None \<Rightarrow> Str ''''
                           | Some l \<Rightarrow> if l = 0 then Str '''' else Num l),
                          Str (picklistValues (fs ! i))])
                | None \<Rightarrow>
                    tl (snd (wb ! k)) =
                      [[Str (objectLabel (fst (objects ! k))),
                        Str (objectApiName (fst (objects ! k))),
                        Str ''Error fetching fields'', Str '''', Str '''']]))"
proof (rule conjI)
  show "\<exists>name data file.
            exportCurrentObjectFieldsToXLSX (Some rows) apiName = Inr ([(name, data)], file) \<and>
            hd data = [Str ''Field Label'', Str ''API Name'', Str ''Field Type'', Str ''Picklist Values''] \<and>
            length (tl data) = length (filter (\<lambda>r. 3 \<le> length (cells r)) rows) \<and>
            (\<forall>i<length (tl data).
               let r = filter (\<lambda>r. 3 \<le> length (cells r)) rows ! i
               in upperCaseFits (take 1 (trim (cells r ! 2))) \<longrightarrow>
                  tl data ! i =
                    [Str (trim (cells r ! 0)), Str (trim (cells r ! 1)),
                     Str (mapFieldTypeForExport (trim (cells r ! 2)) (Some 500)),
                     Str (trim (annotation r))])"
    by (simp add: exportCurrent_data currentRowData_eq currentHeader_def Let_def)
next
  let ?wb = "zip (sheetNames objects) (map (\<lambda>x. objectData (fst x) (snd x)) objects)"
  have 1: "exportSelectedObjectsToXLSX book_append_sheet objects =
             Inr (?wb, ''selected_salesforce_objects_fields_export.xlsx'')"
    using assms(2) by (rule exportSelected_accepted)
  have 2: "exportFullDatabaseToXLSX book_append_sheet homeRows objects =
             Some (Inr (?wb, ''salesforce_objects_fields_export.xlsx''))"
    using assms(2) assms(3) by (rule exportFull_accepted)
  have 3: "length ?wb = length objects" by (simp add: length_sheetNames)
  have 4: "hd (snd (?wb ! k)) =
             [Str ''Field Label'', Str ''API Name'', Str ''Field Type'', Str ''Field Length'',
              Str ''Picklist Values'']"
    unfolding sheets_nth[OF assms(1)] by (simp add: objectData_def bulkHeader_def)
  have 5: "case describedFields (snd (objects ! k)) of
                  Some fs \<Rightarrow>
                    length (tl (snd (?wb ! k))) = length fs \<and>
                    (\<forall>i<length fs.
                       mappingFits (fieldType (fs ! i)) (fieldLength (fs ! i)) \<longrightarrow>
                       tl (snd (?wb ! k)) ! i =
                         [Str (fieldLabel (fs ! i)), Str (fieldApiName (fs ! i)),
                          Str (mapFieldTypeForExport (fieldType (fs ! i)) (fieldLength (fs ! i))),
                          (case fieldLength (fs ! i) of
                             None \<Rightarrow> Str ''''
                           | Some l \<Rightarrow> if l = 0 then Str '''' else Num l),
                          Str (picklistValues (fs ! i))])
                | None \<Rightarrow>
                    tl (snd (?wb ! k)) =
                      [[Str (objectLabel (fst (objects ! k))),
                        Str (objectApiName (fst (objects ! k))),
                        Str ''Error fetching fields'', Str '''', Str '''']]"
    unfolding sheets_nth[OF assms(1)]
    by (simp add: objectData_def errorData_def fieldData_def split: option.split)
  from 1 2 3 4 5
  show "\<exists>wb. exportSelectedObjectsToXLSX book_append_sheet objects =
                  Inr (wb, ''selected_salesforce_objects_fields_export.xlsx'') \<and>
               exportFullDatabaseToXLSX book_append_sheet homeRows objects =
                  Some (Inr (wb, ''salesforce_objects_fields_export.xlsx'')) \<and>
               length wb = length objects \<and>
               hd (snd (wb ! k)) =
                 [Str ''Field Label'', Str ''API Name'', Str ''Field Type'', Str ''Field Length'',
                  Str ''Picklist Values''] \<and>
               (case describedFields (snd (objects ! k)) of
                  Some fs \<Rightarrow>
                    length (tl (snd (wb ! k))) = length fs \<and>
                    (\<forall>i<length fs.
                       mappingFits (fieldType (fs ! i)) (fieldLength (fs ! i)) \<longrightarrow>
                       tl (snd (wb ! k)) ! i =
                         [Str (fieldLabel (fs ! i)), Str (fieldApiName (fs ! i)),
                          Str (mapFieldTypeForExport (fieldType (fs ! i)) (fieldLength (fs ! i))),
                          (case fieldLength (fs ! i) of
                             None \<Rightarrow> Str ''''
                           | Some l \<Rightarrow> if l = 0 then Str '''' else Num l),
                          Str (picklistValues (fs ! i))])
                | None \<Rightarrow>
                    tl (snd (wb ! k)) =
                      [[Str (objectLabel (fst (objects ! k))),
                        Str (objectApiName (fst (objects ! k))),
                        Str ''Error fetching fields'', Str '''', Str '''']])"
    by (intro exI conjI)
qed

theorem export_headers_and_mapped_types_witness:
  "0 < length scenarioB \<and>
   sheetNames scenarioB = [''Account'', ''Invoice''] \<and>
   accepts slashCheckingWriter ''Account'' \<and> accepts slashCheckingWriter ''Invoice'' \<and>
   (\<exists>name data file.
      exportCurrentObjectFieldsToXLSX (Some scenarioA) (Some ''Account'') =
        Inr ([(name, data)], file) \<and>
      hd data = [Str ''Field Label'', Str ''API Name'', Str ''Field Type'', Str ''Picklist Values''] \<and>
      length (tl data) = 2 \<and>
      tl data ! 0 = [Str ''Name'', Str ''Name'', Str ''Text(500)'', Str ''''] \<and>
      tl data ! 1 = [Str ''Status'', Str ''Status__c'', Str ''Picklist'', Str ''Active;Inactive'']) \<and>
   (\<exists>wb. exportSelectedObjectsToXLSX slashCheckingWriter scenarioB =
            Inr (wb, ''selected_salesforce_objects_fields_export.xlsx'') \<and>
          exportFullDatabaseToXLSX slashCheckingWriter 2 scenarioB =
            Some (Inr (wb, ''salesforce_objects_fields_export.xlsx'')) \<and>
          length wb = 2 \<and>
          hd (snd (wb ! 0)) =
            [Str ''Field Label'', Str ''API Name'', Str ''Field Type'', Str ''Field Length'',
             Str ''Picklist Values''] \<and>
          length (tl (snd (wb ! 0))) = 1 \<and>
          tl (snd (wb ! 0)) ! 0 = [Str ''Name'', Str ''Name'', Str ''Text(255)'', Num 255, Str ''''])"
proof -
  have h1: "0 < length scenarioB" by (simp add: scenarioB_def)
  have h2: "\<forall>name\<in>set (sheetNames scenarioB). accepts slashCheckingWriter name"
    by (rule accepts_scenarioB)
  have h3: "0 < (2::nat)" by simp
  note t = export_headers_and_mapped_types [OF h1 h2 h3, of scenarioA "Some ''Account''"]
  have f: "filter (\<lambda>r. 3 \<le> length (cells r)) scenarioA = scenarioA"
    by (simp add: scenarioA_def)
  have l: "length scenarioA = 2" by (simp add: scenarioA_def)
  have u: "upperCaseFits (take 1 (trim (cells (scenarioA ! 0) ! 2)))"
    "upperCaseFits (take 1 (trim (cells (scenarioA ! 1) ! 2)))"
    by (simp_all add: scenarioA_def trim_eval upperCaseFits_def)
  have r: "[Str (trim (cells (scenarioA ! 0) ! 0)), Str (trim (cells (scenarioA ! 0) ! 1)),
            Str (mapFieldTypeForExport (trim (cells (scenarioA ! 0) ! 2)) (Some 500)),
            Str (trim (annotation (scenarioA ! 0)))] =
           [Str ''Name'', Str ''Name'', Str ''Text(500)'', Str '''']"
    "[Str (trim (cells (scenarioA ! 1) ! 0)), Str (trim (cells (scenarioA ! 1) ! 1)),
      Str (mapFieldTypeForExport (trim (cells (scenarioA ! 1) ! 2)) (Some 500)),
      Str (trim (annotation (scenarioA ! 1)))] =
     [Str ''Status'', Str ''Status__c'', Str ''Picklist'', Str ''Active;Inactive'']"
    by (simp_all add: scenarioA_def trim_eval annotation_def mapFieldTypeForExport_def lower_eval
        upper_eval orDefault_def number_eval charAt_def slice_def)
  from t[THEN conjunct1] obtain name data fname where
    a1: "exportCurrentObjectFieldsToXLSX (Some scenarioA) (Some ''Account'') =
           Inr ([(name, data)], fname)"
    and a2: "hd data = [Str ''Field Label'', Str ''API Name'', Str ''Field Type'',
                        Str ''Picklist Values'']"
    and a3: "length (tl data) = length (filter (\<lambda>r. 3 \<le> length (cells r)) scenarioA)"
    and a4: "\<forall>i<length (tl data).
               let r = filter (\<lambda>r. 3 \<le> length (cells r)) scenarioA ! i
               in upperCaseFits (take 1 (trim (cells r ! 2))) \<longrightarrow>
                  tl data ! i =
                    [Str (trim (cells r ! 0)), Str (trim (cells r ! 1)),
                     Str (mapFieldTypeForExport (trim (cells r ! 2)) (Some 500)),
                     Str (trim (annotation r))]"
    by (elim exE conjE) (rule that, assumption+)
  from a3 have a3': "length (tl data) = 2" by (simp add: f l)
  from a4[unfolded Let_def f a3', rule_format, of 0] u(1)
  have a5: "tl data ! 0 = [Str ''Name'', Str ''Name'', Str ''Text(500)'', Str '''']"
    unfolding r(1) by simp
  from a4[unfolded Let_def f a3', rule_format, of 1] u(2)
  have a6: "tl data ! 1 = [Str ''Status'', Str ''Status__c'', Str ''Picklist'', Str ''Active;Inactive'']"
    unfolding r(2) by simp
  from a1 a2 a3' a5 a6
  have A: "\<exists>name data file.
      exportCurrentObjectFieldsToXLSX (Some scenarioA) (Some ''Account'') =
        Inr ([(name, data)], file) \<and>
      hd data = [Str ''Field Label'', Str ''API Name'', Str ''Field Type'', Str ''Picklist Values''] \<and>
      length (tl data) = 2 \<and>
      tl data ! 0 = [Str ''Name'', Str ''Name'', Str ''Text(500)'', Str ''''] \<and>
      tl data ! 1 = [Str ''Status'', Str ''Status__c'', Str ''Picklist'', Str ''Active;Inactive'']"
    by (intro exI conjI)
  have d: "describedFields (snd (scenarioB ! 0)) =
             Some [\<lparr>fieldLabel = ''Name'', fieldApiName = ''Name'', fieldType = ''string'',
                    fieldLength = Some 255, picklistValues = ''''\<rparr>]"
    by (simp add: scenarioB_def describedFields_def)
  have lb: "length scenarioB = 2" by (simp add: scenarioB_def)
  have mf: "mappingFits ''string'' (Some 255)"
    by (simp add: mappingFits_def upperCaseFits_def)
  from t[THEN conjunct2]
  have B: "\<exists>wb. exportSelectedObjectsToXLSX slashCheckingWriter scenarioB =
            Inr (wb, ''selected_salesforce_objects_fields_export.xlsx'') \<and>
          exportFullDatabaseToXLSX slashCheckingWriter 2 scenarioB =
            Some (Inr (wb, ''salesforce_objects_fields_export.xlsx'')) \<and>
          length wb = 2 \<and>
          hd (snd (wb ! 0)) =
            [Str ''Field Label'', Str ''API Name'', Str ''Field Type'', Str ''Field Length'',
             Str ''Picklist Values''] \<and>
          length (tl (snd (wb ! 0))) = 1 \<and>
          tl (snd (wb ! 0)) ! 0 = [Str ''Name'', Str ''Name'', Str ''Text(255)'', Num 255, Str '''']"
    unfolding d lb
    by (elim exE conjE, intro exI conjI)
       (auto simp add: mf mapFieldTypeForExport_string_255)
  have c: "accepts slashCheckingWriter ''Account''" "accepts slashCheckingWriter ''Invoice''"
    by (simp_all add: accepts_slashCheckingWriter)
  from h1 sheetNames_scenarioB c A B show ?thesis by (intro conjI)
qed

text \<open>
  The rule for the type column does not hold of every data row in all modes. In the
  export of the two objects above, the sheet \<open>Invoice\<close> has one data row; the
  response for that object has no fields, and the third cell of the row is
  \<open>"Error fetching fields"\<close>, which the loop writes without a call of
  \<open>mapFieldTypeForExport\<close>. The bulk export runs the same loop and builds the same
  workbook.
\<close>

theorem error_row_type_not_normalized_counterexample:
  "exportSelectedObjectsToXLSX slashCheckingWriter scenarioB =
     Inr ([(''Account'',
            [[Str ''Field Label'', Str ''API Name'', Str ''Field Type'', Str ''Field Length'',
              Str ''Picklist Values''],
             [Str ''Name'', Str ''Name'', Str ''Text(255)'', Num 255, Str '''']]),
           (''Invoice'',
            [[Str ''Field Label'', Str ''API Name'', Str ''Field Type'', Str ''Field Length'',
              Str ''Picklist Values''],
             [Str ''Invoice'', Str ''Invoice__c'', Str ''Error fetching fields'', Str '''',
              Str '''']])],
          ''selected_salesforce_objects_fields_export.xlsx'') \<and>
   exportFullDatabaseToXLSX slashCheckingWriter 2 scenarioB =
     Some (Inr ([(''Account'',
                  [[Str ''Field Label'', Str ''API Name'', Str ''Field Type'', Str ''Field Length'',
                    Str ''Picklist Values''],
                   [Str ''Name'', Str ''Name'', Str ''Text(255)'', Num 255, Str '''']]),
                 (''Invoice'',
                  [[Str ''Field Label'', Str ''API Name'', Str ''Field Type'', Str ''Field Length'',
                    Str ''Picklist Values''],
                   [Str ''Invoice'', Str ''Invoice__c'', Str ''Error fetching fields'', Str '''',
                    Str '''']])],
                ''salesforce_objects_fields_export.xlsx'')) \<and>
   responseFields (snd (scenarioB ! 1)) = [] \<and>
   \<not> typeColumnNormalized (responseFields (snd (scenarioB ! 1)))
       [[Str ''Field Label'', Str ''API Name'', Str ''Field Type'', Str ''Field Length'',
         Str ''Picklist Values''],
        [Str ''Invoice'', Str ''Invoice__c'', Str ''Error fetching fields'', Str '''', Str '''']]"
proof -
  have r: "responseFields (snd (scenarioB ! 1)) = []"
    by (simp add: scenarioB_def responseFields_def)
  have p: "0 < (2::nat)" by simp
  show ?thesis
    unfolding r exportSelected_accepted[OF accepts_scenarioB]
      exportFull_accepted[OF accepts_scenarioB p] sheetNames_scenarioB objectData_scenarioB
    by (simp add: typeColumnNormalized_def)
qed

end
